theory Spec2Isabelle
  imports Main
begin

section \<open>Data model (models.py, schemas.py)\<close>

text \<open>
  A \<open>DateTime\<close> value is a point on the time line, compared by value; it is represented by
  an integer (a count of microseconds).
\<close>

type_synonym datetime = int

datatype Role = OWNER | EDITOR | VIEWER

datatype RecurrencePattern = DAILY | WEEKLY | MONTHLY | YEARLY | CUSTOM

text \<open>
  The eight editable columns that \<open>models.Event\<close> and \<open>models.EventVersion\<close> both declare.
  No column is declared \<open>nullable=False\<close>, and \<open>update_event\<close> can store \<open>None\<close> in any of
  them, so each one is optional.
\<close>

record EventColumns =
  title :: "string option"
  description :: "string option"
  start_time :: "datetime option"
  end_time :: "datetime option"
  location :: "string option"
  is_recurring :: "bool option"
  recurrence_pattern :: "RecurrencePattern option"
  recurrence_end_date :: "datetime option"

record User =
  id :: int
  username :: string
  email :: string
  hashed_password :: string
  created_at :: datetime
  updated_at :: datetime

record Event = EventColumns +
  id :: int
  owner_id :: int
  created_at :: datetime
  updated_at :: datetime

text \<open>
  \<open>event_id\<close> is optional in a version row: deleting an event leaves its version rows in the
  table with the foreign key set to NULL (the relationship \<open>Event.versions\<close> declares no
  delete cascade).
\<close>

record EventVersion = EventColumns +
  id :: int
  event_id :: "int option"
  modified_by_id :: int
  version_number :: int
  created_at :: datetime

text \<open>A row of the association table \<open>event_permissions\<close>.\<close>

record PermissionRow =
  event_id :: int
  user_id :: int
  role :: Role
  created_at :: datetime

text \<open>\<open>schemas.EventCreate\<close>: the request body of a creation, already validated.\<close>

record EventCreate =
  title :: string
  description :: string
  start_time :: datetime
  end_time :: datetime
  location :: "string option"
  is_recurring :: bool
  recurrence_pattern :: "RecurrencePattern option"
  recurrence_end_date :: "datetime option"

text \<open>
  \<open>schemas.EventUpdate\<close>. Every field is \<open>Optional\<close> with default \<open>None\<close>, and the handler
  reads it with \<open>dict(exclude_unset=True)\<close>: a field is \<open>None\<close> here when the request body
  does not mention it, \<open>Some None\<close> when the body sets it to null, and \<open>Some (Some v)\<close> when
  the body gives the value \<open>v\<close>.
\<close>

record EventUpdate =
  title :: "string option option"
  description :: "string option option"
  start_time :: "datetime option option"
  end_time :: "datetime option option"
  location :: "string option option"
  is_recurring :: "bool option option"
  recurrence_pattern :: "RecurrencePattern option option"
  recurrence_end_date :: "datetime option option"

record PermissionCreate =
  user_id :: int
  role :: Role

text \<open>The dictionary \<open>{"user_id", "role", "created_at"}\<close> that the handlers return per grant.\<close>

record Permission =
  user_id :: int
  role :: Role
  created_at :: datetime

text \<open>The values that the tracked fields of a version can hold.\<close>

datatype pyval =
  PyNone
  | PyStr string
  | PyDateTime datetime
  | PyBool bool
  | PyPattern RecurrencePattern

record DiffItem =
  field :: string
  old_value :: pyval
  new_value :: pyval

record VersionDiff =
  version1 :: int
  version2 :: int
  differences :: "DiffItem list"


record ShareResponse =
  message :: string
  permissions :: "Permission list"

text \<open>
  What a request can end with instead of a result: an \<open>HTTPException\<close> with its status code
  and detail, the rejection of a path parameter by its declared constraint (422), a storage
  error raised by a commit, or an \<open>AttributeError\<close> on reading a field of \<open>None\<close>.
\<close>

datatype error =
  HTTPException int string
  | RequestValidationError
  | StorageError
  | AttributeError

section \<open>The persistent store\<close>

text \<open>
  The four tables, each as the list of its rows in insertion order, and the next primary key
  of the two tables whose rows the handlers insert through the ORM: the database assigns
  the keys, here from a counter. A query without \<open>order_by\<close> reads the rows in insertion
  order.

  Every handler takes the committed store and returns the committed store after the request
  together with the response, which is the value the body of the handler returns, or what
  it raises. The caller is the user that the dependency \<open>auth.get_current_user\<close> resolved,
  the argument \<open>current_user\<close>. A handler that calls \<open>db.commit()\<close> takes one flag for each
  call, telling whether the database accepts that commit; a refused commit raises. The
  values \<open>datetime.utcnow\<close> supplies as column defaults during a request are the argument
  \<open>now\<close>.
\<close>

record db =
  users :: "User list"
  events :: "Event list"
  event_versions :: "EventVersion list"
  event_permissions :: "PermissionRow list"
  next_event_id :: int
  next_version_id :: int

text \<open>
  Modelled from the spec: the module \<open>database\<close> (the session factory and \<open>get_db\<close>) is not
  among the sources. Each request is handled independently, with no shared state beyond the
  persistent store, and a request that fails leaves nothing of its in-flight transaction
  behind (sections 5 and 7): a request that raises ends with the store as its last accepted
  commit left it, \<open>committed\<close>.
\<close>

definition rolled_back :: "db \<Rightarrow> error \<Rightarrow> db \<times> (error + 'a)" where
  "rolled_back committed e = (committed, Inl e)"

definition columns :: "'a EventColumns_scheme \<Rightarrow> EventColumns" where
  "columns r =
     \<lparr>EventColumns.title = EventColumns.title r,
      EventColumns.description = EventColumns.description r,
      EventColumns.start_time = EventColumns.start_time r,
      EventColumns.end_time = EventColumns.end_time r,
      EventColumns.location = EventColumns.location r,
      EventColumns.is_recurring = EventColumns.is_recurring r,
      EventColumns.recurrence_pattern = EventColumns.recurrence_pattern r,
      EventColumns.recurrence_end_date = EventColumns.recurrence_end_date r\<rparr>"

text \<open>\<open>db.query(models.Event).filter(models.Event.id == event_id).first()\<close>\<close>

definition query_event :: "db \<Rightarrow> int \<Rightarrow> Event option" where
  "query_event d eid = find (\<lambda>e. Event.id e = eid) (events d)"

text \<open>\<open>db.query(models.User).filter(models.User.id == user_id).first()\<close>\<close>

definition query_user :: "db \<Rightarrow> int \<Rightarrow> User option" where
  "query_user d uid = find (\<lambda>u. User.id u = uid) (users d)"

text \<open>\<open>db.query(models.EventVersion).filter(models.EventVersion.event_id == event_id)\<close>\<close>

definition versions_of :: "db \<Rightarrow> int \<Rightarrow> EventVersion list" where
  "versions_of d eid =
     filter (\<lambda>v. EventVersion.event_id v = Some eid) (event_versions d)"

text \<open>The same query, filtered on \<open>version_number == version_id\<close> as well, then \<open>.first()\<close>.\<close>

definition query_version :: "db \<Rightarrow> int \<Rightarrow> int \<Rightarrow> EventVersion option" where
  "query_version d eid version_id =
     find (\<lambda>v. version_number v = version_id) (versions_of d eid)"

text \<open>
  \<open>.order_by(models.EventVersion.version_number.desc()).first()\<close>: a row with the greatest
  version number, the earliest such row when several rows share it.
\<close>

fun first_desc :: "EventVersion list \<Rightarrow> EventVersion option" where
  "first_desc [] = None"
| "first_desc (v # vs) =
     (case first_desc vs of
        None \<Rightarrow> Some v
      | Some w \<Rightarrow> if version_number v < version_number w then Some w else Some v)"

definition query_current_version :: "db \<Rightarrow> int \<Rightarrow> EventVersion option" where
  "query_current_version d eid = first_desc (versions_of d eid)"

text \<open>
  \<open>db.query(models.event_permissions).filter(models.event_permissions.c.event_id == event_id).all()\<close>
\<close>

definition permissions_of :: "db \<Rightarrow> int \<Rightarrow> PermissionRow list" where
  "permissions_of d eid =
     filter (\<lambda>p. PermissionRow.event_id p = eid) (event_permissions d)"

definition permission_dict :: "PermissionRow \<Rightarrow> Permission" where
  "permission_dict p =
     \<lparr>Permission.user_id = PermissionRow.user_id p,
      Permission.role = PermissionRow.role p,
      Permission.created_at = PermissionRow.created_at p\<rparr>"

text \<open>
  Writing back a loaded event at a commit: the row with that primary key is replaced. The
  column \<open>updated_at\<close> has \<open>onupdate=datetime.utcnow\<close>, which applies when an UPDATE is
  emitted for the row, that is when one of its columns has a new value.
\<close>

definition touch :: "Event \<Rightarrow> Event \<Rightarrow> datetime \<Rightarrow> Event" where
  "touch old new now =
     (if columns new = columns old then new else new\<lparr>Event.updated_at := now\<rparr>)"

definition store_event :: "db \<Rightarrow> Event \<Rightarrow> db" where
  "store_event d e =
     d\<lparr>events := map (\<lambda>x. if Event.id x = Event.id e then e else x) (events d)\<rparr>"

text \<open>\<open>db.add(version)\<close> followed by the flush: the row gets the next primary key.\<close>

definition add_version :: "db \<Rightarrow> EventVersion \<Rightarrow> db" where
  "add_version d v =
     d\<lparr>event_versions := event_versions d @ [v\<lparr>EventVersion.id := next_version_id d\<rparr>],
       next_version_id := next_version_id d + 1\<rparr>"

section \<open>Event management endpoints (main.py)\<close>

definition create_event ::
  "db \<Rightarrow> EventCreate \<Rightarrow> User \<Rightarrow> datetime \<Rightarrow> bool \<Rightarrow> bool \<Rightarrow> db \<times> (error + Event)" where
  "create_event d event current_user now commit1 commit2 =
     (let db_event =
            \<lparr>EventColumns.title = Some (EventCreate.title event),
             EventColumns.description = Some (EventCreate.description event),
             EventColumns.start_time = Some (EventCreate.start_time event),
             EventColumns.end_time = Some (EventCreate.end_time event),
             EventColumns.location = EventCreate.location event,
             EventColumns.is_recurring = Some (EventCreate.is_recurring event),
             EventColumns.recurrence_pattern = EventCreate.recurrence_pattern event,
             EventColumns.recurrence_end_date = EventCreate.recurrence_end_date event,
             Event.id = next_event_id d,
             Event.owner_id = User.id current_user,
             Event.created_at = now,
             Event.updated_at = now\<rparr>;
          d1 = d\<lparr>events := events d @ [db_event], next_event_id := next_event_id d + 1\<rparr>
      in if \<not> commit1 then rolled_back d StorageError
         else
           let event_version =
                 \<lparr>EventColumns.title = Some (EventCreate.title event),
                  EventColumns.description = Some (EventCreate.description event),
                  EventColumns.start_time = Some (EventCreate.start_time event),
                  EventColumns.end_time = Some (EventCreate.end_time event),
                  EventColumns.location = EventCreate.location event,
                  EventColumns.is_recurring = Some (EventCreate.is_recurring event),
                  EventColumns.recurrence_pattern = EventCreate.recurrence_pattern event,
                  EventColumns.recurrence_end_date = EventCreate.recurrence_end_date event,
                  EventVersion.id = 0,
                  EventVersion.event_id = Some (Event.id db_event),
                  EventVersion.modified_by_id = User.id current_user,
                  EventVersion.version_number = 1,
                  EventVersion.created_at = now\<rparr>
           in if \<not> commit2 then rolled_back d1 StorageError
              else (add_version d1 event_version, Inr db_event))"


text \<open>
  The loop \<open>for key, value in update_data.items(): setattr(db_event, key, value)\<close> over
  the fields that the request body sets.
\<close>

definition apply_update :: "Event \<Rightarrow> EventUpdate \<Rightarrow> Event" where
  "apply_update db_event event_update =
     db_event
       \<lparr>EventColumns.title :=
          (case EventUpdate.title event_update of
             None \<Rightarrow> EventColumns.title db_event | Some x \<Rightarrow> x),
        EventColumns.description :=
          (case EventUpdate.description event_update of
             None \<Rightarrow> EventColumns.description db_event | Some x \<Rightarrow> x),
        EventColumns.start_time :=
          (case EventUpdate.start_time event_update of
             None \<Rightarrow> EventColumns.start_time db_event | Some x \<Rightarrow> x),
        EventColumns.end_time :=
          (case EventUpdate.end_time event_update of
             None \<Rightarrow> EventColumns.end_time db_event | Some x \<Rightarrow> x),
        EventColumns.location :=
          (case EventUpdate.location event_update of
             None \<Rightarrow> EventColumns.location db_event | Some x \<Rightarrow> x),
        EventColumns.is_recurring :=
          (case EventUpdate.is_recurring event_update of
             None \<Rightarrow> EventColumns.is_recurring db_event | Some x \<Rightarrow> x),
        EventColumns.recurrence_pattern :=
          (case EventUpdate.recurrence_pattern event_update of
             None \<Rightarrow> EventColumns.recurrence_pattern db_event | Some x \<Rightarrow> x),
        EventColumns.recurrence_end_date :=
          (case EventUpdate.recurrence_end_date event_update of
             None \<Rightarrow> EventColumns.recurrence_end_date db_event | Some x \<Rightarrow> x)\<rparr>"

definition update_event ::
  "db \<Rightarrow> int \<Rightarrow> EventUpdate \<Rightarrow> User \<Rightarrow> datetime \<Rightarrow> bool \<Rightarrow> db \<times> (error + Event)" where
  "update_event d eid event_update current_user now commit =
     (case query_event d eid of
        None \<Rightarrow> rolled_back d (HTTPException 404 ''Event not found'')
      | Some db_event0 \<Rightarrow>
          if Event.owner_id db_event0 \<noteq> User.id current_user
          then rolled_back d (HTTPException 403 ''Not authorized to update this event'')
          else
            let db_event = apply_update db_event0 event_update;
                current_version = query_current_version d eid;
                new_version =
                  \<lparr>EventColumns.title = EventColumns.title db_event,
                   EventColumns.description = EventColumns.description db_event,
                   EventColumns.start_time = EventColumns.start_time db_event,
                   EventColumns.end_time = EventColumns.end_time db_event,
                   EventColumns.location = EventColumns.location db_event,
                   EventColumns.is_recurring = EventColumns.is_recurring db_event,
                   EventColumns.recurrence_pattern = EventColumns.recurrence_pattern db_event,
                   EventColumns.recurrence_end_date = EventColumns.recurrence_end_date db_event,
                   EventVersion.id = 0,
                   EventVersion.event_id = Some (Event.id db_event),
                   EventVersion.modified_by_id = User.id current_user,
                   EventVersion.version_number =
                     (case current_version of
                        Some cv \<Rightarrow> version_number cv + 1
                      | None \<Rightarrow> 1),
                   EventVersion.created_at = now\<rparr>
            in if \<not> commit then rolled_back d StorageError
               else
                 let stored = touch db_event0 db_event now
                 in (add_version (store_event d stored) new_version, Inr stored))"


section \<open>Collaboration endpoint\<close>

text \<open>Python's \<open>str\<close> of an integer, for the detail of the 404 of \<open>share_event\<close>.\<close>

fun str_nat :: "nat \<Rightarrow> string" where
  "str_nat n =
     (if n < 10 then [char_of (48 + n)]
      else str_nat (n div 10) @ [char_of (48 + n mod 10)])"

definition str_int :: "int \<Rightarrow> string" where
  "str_int i = (if i < 0 then CHR ''-'' # str_nat (nat (- i)) else str_nat (nat i))"

text \<open>
  The loop \<open>for perm in permissions\<close> of \<open>share_event\<close>, on the session's view of the
  store: each entry is validated and then written at once, before the next entry is looked
  at. The statements go through \<open>db.execute\<close>, so a later entry sees the rows of an earlier
  one.
\<close>

fun share_loop :: "db \<Rightarrow> int \<Rightarrow> PermissionCreate list \<Rightarrow> datetime \<Rightarrow> error + db" where
  "share_loop d eid [] now = Inr d"
| "share_loop d eid (perm # perms) now =
     (case query_user d (PermissionCreate.user_id perm) of
        None \<Rightarrow>
          Inl (HTTPException 404
                 (''User with id '' @ str_int (PermissionCreate.user_id perm) @ '' not found''))
      | Some user \<Rightarrow>
          (case find (\<lambda>p. PermissionRow.event_id p = eid
                          \<and> PermissionRow.user_id p = PermissionCreate.user_id perm)
                  (event_permissions d) of
             Some existing_perm \<Rightarrow>
               share_loop
                 (d\<lparr>event_permissions :=
                      map (\<lambda>p. if PermissionRow.event_id p = eid
                                   \<and> PermissionRow.user_id p = PermissionCreate.user_id perm
                                then p\<lparr>PermissionRow.role := PermissionCreate.role perm\<rparr>
                                else p)
                        (event_permissions d)\<rparr>)
                 eid perms now
           | None \<Rightarrow>
               share_loop
                 (d\<lparr>event_permissions :=
                      event_permissions d @
                        [\<lparr>PermissionRow.event_id = eid,
                          PermissionRow.user_id = PermissionCreate.user_id perm,
                          PermissionRow.role = PermissionCreate.role perm,
                          PermissionRow.created_at = now\<rparr>]\<rparr>)
                 eid perms now))"

definition share_event ::
  "db \<Rightarrow> int \<Rightarrow> PermissionCreate list \<Rightarrow> User \<Rightarrow> datetime \<Rightarrow> bool
     \<Rightarrow> db \<times> (error + ShareResponse)" where
  "share_event d eid perms current_user now commit =
     (case query_event d eid of
        None \<Rightarrow> rolled_back d (HTTPException 404 ''Event not found'')
      | Some db_event \<Rightarrow>
          if Event.owner_id db_event \<noteq> User.id current_user
          then rolled_back d (HTTPException 403 ''Only the owner can share this event'')
          else
            (case share_loop d eid perms now of
               Inl e \<Rightarrow> rolled_back d e
             | Inr d' \<Rightarrow>
                 if \<not> commit then rolled_back d StorageError
                 else
                   (d', Inr \<lparr>ShareResponse.message = ''Event shared successfully'',
                             ShareResponse.permissions =
                               map permission_dict (permissions_of d' eid)\<rparr>)))"

section \<open>Version history endpoints\<close>

definition get_event_version ::
  "db \<Rightarrow> int \<Rightarrow> int \<Rightarrow> User \<Rightarrow> db \<times> (error + EventVersion)" where
  "get_event_version d eid version_id current_user =
     (case query_event d eid of
        None \<Rightarrow> rolled_back d (HTTPException 404 ''Event not found'')
      | Some event \<Rightarrow>
          if Event.owner_id event \<noteq> User.id current_user
          then rolled_back d (HTTPException 403 ''Not authorized to access this event'')
          else
            (case query_version d eid version_id of
               None \<Rightarrow> rolled_back d (HTTPException 404 ''Version not found'')
             | Some ver \<Rightarrow> (d, Inr ver)))"

definition rollback_event ::
  "db \<Rightarrow> int \<Rightarrow> int \<Rightarrow> User \<Rightarrow> datetime \<Rightarrow> bool \<Rightarrow> db \<times> (error + Event)" where
  "rollback_event d eid version_id current_user now commit =
     (case query_event d eid of
        None \<Rightarrow> rolled_back d (HTTPException 404 ''Event not found'')
      | Some event0 \<Rightarrow>
          if Event.owner_id event0 \<noteq> User.id current_user
          then rolled_back d (HTTPException 403 ''Not authorized to update this event'')
          else
            (case query_version d eid version_id of
               None \<Rightarrow> rolled_back d (HTTPException 404 ''Version not found'')
             | Some ver \<Rightarrow>
                 let event =
                       event0
                         \<lparr>EventColumns.title := EventColumns.title ver,
                          EventColumns.description := EventColumns.description ver,
                          EventColumns.start_time := EventColumns.start_time ver,
                          EventColumns.end_time := EventColumns.end_time ver,
                          EventColumns.location := EventColumns.location ver,
                          EventColumns.is_recurring := EventColumns.is_recurring ver,
                          EventColumns.recurrence_pattern :=
                            EventColumns.recurrence_pattern ver,
                          EventColumns.recurrence_end_date :=
                            EventColumns.recurrence_end_date ver\<rparr>
                 in (case query_current_version d eid of
                       None \<Rightarrow> rolled_back d AttributeError
                     | Some current_version \<Rightarrow>
                         let new_version =
                               \<lparr>EventColumns.title = EventColumns.title event,
                                EventColumns.description = EventColumns.description event,
                                EventColumns.start_time = EventColumns.start_time event,
                                EventColumns.end_time = EventColumns.end_time event,
                                EventColumns.location = EventColumns.location event,
                                EventColumns.is_recurring = EventColumns.is_recurring event,
                                EventColumns.recurrence_pattern =
                                  EventColumns.recurrence_pattern event,
                                EventColumns.recurrence_end_date =
                                  EventColumns.recurrence_end_date event,
                                EventVersion.id = 0,
                                EventVersion.event_id = Some (Event.id event),
                                EventVersion.modified_by_id = User.id current_user,
                                EventVersion.version_number =
                                  version_number current_version + 1,
                                EventVersion.created_at = now\<rparr>
                         in if \<not> commit then rolled_back d StorageError
                            else
                              let stored = touch event0 event now
                              in (add_version (store_event d stored) new_version,
                                  Inr stored))))"

section \<open>Changelog and diff endpoints\<close>



text \<open>
  The tracked fields in the order of the list literal of \<open>get_event_diff\<close>, each name with
  what \<open>getattr(version, name)\<close> reads.
\<close>

fun py :: "('a \<Rightarrow> pyval) \<Rightarrow> 'a option \<Rightarrow> pyval" where
  "py f None = PyNone"
| "py f (Some x) = f x"

definition tracked_fields :: "(string \<times> (EventVersion \<Rightarrow> pyval)) list" where
  "tracked_fields =
     [(''title'', \<lambda>v. py PyStr (EventColumns.title v)),
      (''description'', \<lambda>v. py PyStr (EventColumns.description v)),
      (''start_time'', \<lambda>v. py PyDateTime (EventColumns.start_time v)),
      (''end_time'', \<lambda>v. py PyDateTime (EventColumns.end_time v)),
      (''location'', \<lambda>v. py PyStr (EventColumns.location v)),
      (''is_recurring'', \<lambda>v. py PyBool (EventColumns.is_recurring v)),
      (''recurrence_pattern'', \<lambda>v. py PyPattern (EventColumns.recurrence_pattern v)),
      (''recurrence_end_date'', \<lambda>v. py PyDateTime (EventColumns.recurrence_end_date v))]"

fun diff_loop ::
  "(string \<times> (EventVersion \<Rightarrow> pyval)) list \<Rightarrow> EventVersion \<Rightarrow> EventVersion
     \<Rightarrow> DiffItem list \<Rightarrow> DiffItem list" where
  "diff_loop [] ver1 ver2 diffs = diffs"
| "diff_loop ((name, getattr) # rest) ver1 ver2 diffs =
     (let val1 = getattr ver1;
          val2 = getattr ver2
      in if val1 \<noteq> val2
         then diff_loop rest ver1 ver2
                (diffs @
                   [\<lparr>DiffItem.field = name, DiffItem.old_value = val1,
                     DiffItem.new_value = val2\<rparr>])
         else diff_loop rest ver1 ver2 diffs)"

definition get_event_diff ::
  "db \<Rightarrow> int \<Rightarrow> int \<Rightarrow> int \<Rightarrow> User \<Rightarrow> db \<times> (error + VersionDiff)" where
  "get_event_diff d eid version_id1 version_id2 current_user =
     (case query_event d eid of
        None \<Rightarrow> rolled_back d (HTTPException 404 ''Event not found'')
      | Some event \<Rightarrow>
          if Event.owner_id event \<noteq> User.id current_user
          then rolled_back d (HTTPException 403 ''Not authorized to access this event'')
          else
            (case (query_version d eid version_id1,
                   query_version d eid version_id2) of
               (Some ver1, Some ver2) \<Rightarrow>
                 (d, Inr \<lparr>VersionDiff.version1 = version_id1,
                          VersionDiff.version2 = version_id2,
                          VersionDiff.differences =
                            diff_loop tracked_fields ver1 ver2 []\<rparr>)
             | _ \<Rightarrow> rolled_back d (HTTPException 404 ''One or both versions not found'')))"

section \<open>Sequences of requests\<close>

text \<open>The store before any event exists, with the registered users \<open>us\<close>.\<close>

definition init_db :: "User list \<Rightarrow> db" where
  "init_db us =
     \<lparr>users = us, events = [], event_versions = [], event_permissions = [],
      next_event_id = 1, next_version_id = 1\<rparr>"

text \<open>
  A request that writes a version: a creation, an update or a rollback, with its caller and
  the time of the request. Every commit is accepted. A request is logged with the id of its
  event when it succeeds, and not at all when it fails.
\<close>

datatype op =
  Create User EventCreate datetime
  | Update User int EventUpdate datetime
  | Rollback User int int datetime

fun logged :: "db \<times> (error + Event) \<Rightarrow> db \<times> int list" where
  "logged (d, Inr event) = (d, [Event.id event])"
| "logged (d, Inl e) = (d, [])"

fun exec_op :: "db \<Rightarrow> op \<Rightarrow> db \<times> int list" where
  "exec_op d (Create u event now) = logged (create_event d event u now True True)"
| "exec_op d (Update u eid event_update now) = logged (update_event d eid event_update u now True)"
| "exec_op d (Rollback u eid version_id now) = logged (rollback_event d eid version_id u now True)"

fun run :: "db \<Rightarrow> op list \<Rightarrow> db \<times> int list" where
  "run d [] = (d, [])"
| "run d (x # xs) =
     (case exec_op d x of (d1, l1) \<Rightarrow> (case run d1 xs of (d2, l2) \<Rightarrow> (d2, l1 @ l2)))"

text \<open>
  What a successful creation, and a successful update or rollback, leave in the store.
\<close>

definition created :: "db \<Rightarrow> db \<Rightarrow> Event \<Rightarrow> bool" where
  "created d d' ev \<longleftrightarrow>
     Event.id ev = next_event_id d \<and> events d' = events d @ [ev] \<and>
     next_event_id d' = next_event_id d + 1 \<and>
     (\<exists>v. event_versions d' = event_versions d @ [v] \<and> version_number v = 1 \<and>
        EventVersion.event_id v = Some (Event.id ev) \<and> columns v = columns ev)"

definition modified :: "db \<Rightarrow> db \<Rightarrow> int \<Rightarrow> Event \<Rightarrow> bool" where
  "modified d d' eid ev \<longleftrightarrow>
     Event.id ev = eid \<and> query_event d eid \<noteq> None \<and>
     events d' = map (\<lambda>x. if Event.id x = eid then ev else x) (events d) \<and>
     next_event_id d' = next_event_id d \<and>
     (\<exists>v. event_versions d' = event_versions d @ [v] \<and>
        version_number v =
          (case first_desc (versions_of d eid) of Some cv \<Rightarrow> version_number cv + 1 | None \<Rightarrow> 1) \<and>
        EventVersion.event_id v = Some eid \<and> columns v = columns ev)"

text \<open>
  Invariants of the stores that sequences of requests reach: primary keys below the next
  key; the version numbers of an event count its logged requests; the columns of an event
  are those of its latest version.
\<close>

definition bounded :: "db \<Rightarrow> bool" where
  "bounded d \<longleftrightarrow>
     (\<forall>ev \<in> set (events d). Event.id ev < next_event_id d) \<and>
     (\<forall>v \<in> set (event_versions d). \<forall>e. EventVersion.event_id v = Some e \<longrightarrow> e < next_event_id d)"

definition numbered :: "db \<Rightarrow> int list \<Rightarrow> bool" where
  "numbered d log \<longleftrightarrow>
     (\<forall>e. map version_number (versions_of d e) = [1..int (count_list log e)])"

definition synced :: "db \<Rightarrow> bool" where
  "synced d \<longleftrightarrow>
     (\<forall>ev \<in> set (events d). \<exists>v. first_desc (versions_of d (Event.id ev)) = Some v \<and> columns v = columns ev)"

definition reachable_inv :: "db \<Rightarrow> int list \<Rightarrow> bool" where
  "reachable_inv d log \<longleftrightarrow> bounded d \<and> numbered d log \<and> synced d"

section \<open>The difference of two versions, as specified\<close>

text \<open>
  For each tracked field, in the fixed order, the values of the two versions are compared,
  and an entry is emitted only when they are unequal.
\<close>

definition diff_entry :: "string \<Rightarrow> ('a \<Rightarrow> pyval) \<Rightarrow> 'a option \<Rightarrow> 'a option \<Rightarrow> DiffItem list" where
  "diff_entry name con a b =
     (if a = b then []
      else [\<lparr>DiffItem.field = name, DiffItem.old_value = py con a, DiffItem.new_value = py con b\<rparr>])"

definition diff_spec :: "EventVersion \<Rightarrow> EventVersion \<Rightarrow> DiffItem list" where
  "diff_spec a b =
     diff_entry ''title'' PyStr (EventColumns.title a) (EventColumns.title b)
     @ diff_entry ''description'' PyStr (EventColumns.description a) (EventColumns.description b)
     @ diff_entry ''start_time'' PyDateTime (EventColumns.start_time a) (EventColumns.start_time b)
     @ diff_entry ''end_time'' PyDateTime (EventColumns.end_time a) (EventColumns.end_time b)
     @ diff_entry ''location'' PyStr (EventColumns.location a) (EventColumns.location b)
     @ diff_entry ''is_recurring'' PyBool (EventColumns.is_recurring a) (EventColumns.is_recurring b)
     @ diff_entry ''recurrence_pattern'' PyPattern
         (EventColumns.recurrence_pattern a) (EventColumns.recurrence_pattern b)
     @ diff_entry ''recurrence_end_date'' PyDateTime
         (EventColumns.recurrence_end_date a) (EventColumns.recurrence_end_date b)"

definition swap_item :: "DiffItem \<Rightarrow> DiffItem" where
  "swap_item i = \<lparr>DiffItem.field = DiffItem.field i, DiffItem.old_value = DiffItem.new_value i,
                   DiffItem.new_value = DiffItem.old_value i\<rparr>"

section \<open>A worked scenario\<close>

text \<open>
  Two users; alice creates the event \<open>Standup\<close> (store \<open>db1\<close>), retitles it (\<open>db2\<close>)
  and rolls it back to version 1 (\<open>db3\<close>).
\<close>

definition alice :: User where
  "alice = \<lparr>User.id = 1, username = ''alice'', email = ''alice@example.org'',
             hashed_password = ''x'', User.created_at = 0, User.updated_at = 0\<rparr>"

definition bob :: User where
  "bob = \<lparr>User.id = 2, username = ''bob'', email = ''bob@example.org'',
           hashed_password = ''y'', User.created_at = 0, User.updated_at = 0\<rparr>"

definition standup :: EventCreate where
  "standup =
     \<lparr>EventCreate.title = ''Standup'', EventCreate.description = ''Daily'',
      EventCreate.start_time = 900, EventCreate.end_time = 930,
      EventCreate.location = None, EventCreate.is_recurring = False,
      EventCreate.recurrence_pattern = None, EventCreate.recurrence_end_date = None\<rparr>"

definition no_fields :: EventUpdate where
  "no_fields =
     \<lparr>EventUpdate.title = None, EventUpdate.description = None,
      EventUpdate.start_time = None, EventUpdate.end_time = None,
      EventUpdate.location = None, EventUpdate.is_recurring = None,
      EventUpdate.recurrence_pattern = None, EventUpdate.recurrence_end_date = None\<rparr>"

definition retitle :: EventUpdate where
  "retitle = no_fields\<lparr>EventUpdate.title := Some (Some ''Daily Standup'')\<rparr>"

definition standup_v1 :: EventVersion where
  "standup_v1 =
     \<lparr>EventColumns.title = Some ''Standup'', description = Some ''Daily'',
      start_time = Some 900, end_time = Some 930, location = None,
      is_recurring = Some False, recurrence_pattern = None, recurrence_end_date = None,
      EventVersion.id = 1, event_id = Some 1, modified_by_id = 1, version_number = 1,
      created_at = 10\<rparr>"

definition standup_v2 :: EventVersion where
  "standup_v2 =
     standup_v1\<lparr>EventColumns.title := Some ''Daily Standup'', EventVersion.id := 2,
       version_number := 2, EventVersion.created_at := 20\<rparr>"

definition standup_v3 :: EventVersion where
  "standup_v3 = standup_v1\<lparr>EventVersion.id := 3, version_number := 3, EventVersion.created_at := 30\<rparr>"

definition standup_event :: Event where
  "standup_event =
     \<lparr>EventColumns.title = Some ''Standup'', description = Some ''Daily'',
      start_time = Some 900, end_time = Some 930, location = None,
      is_recurring = Some False, recurrence_pattern = None, recurrence_end_date = None,
      Event.id = 1, owner_id = 1, created_at = 10, updated_at = 10\<rparr>"

definition db1 :: db where
  "db1 = \<lparr>users = [alice, bob], events = [standup_event], event_versions = [standup_v1],
           event_permissions = [], next_event_id = 2, next_version_id = 2\<rparr>"

definition db2 :: db where
  "db2 = db1\<lparr>events := [standup_event\<lparr>EventColumns.title := Some ''Daily Standup'', Event.updated_at := 20\<rparr>],
              event_versions := [standup_v1, standup_v2], next_version_id := 3\<rparr>"

definition db3 :: db where
  "db3 = db1\<lparr>events := [standup_event\<lparr>Event.updated_at := 30\<rparr>],
              event_versions := [standup_v1, standup_v2, standup_v3], next_version_id := 4\<rparr>"

section \<open>The permission registry\<close>

text \<open>
  The grants of a user on an event: the rows of the association table with that key. The
  role a batch of a share request gives a user last, if it mentions the user.
\<close>

definition grants :: "db \<Rightarrow> int \<Rightarrow> int \<Rightarrow> PermissionRow list" where
  "grants d eid uid =
     filter (\<lambda>p. PermissionRow.event_id p = eid \<and> PermissionRow.user_id p = uid)
       (event_permissions d)"

fun last_role :: "PermissionCreate list \<Rightarrow> int \<Rightarrow> Role option" where
  "last_role [] uid = None"
| "last_role (p # ps) uid =
     (case last_role ps uid of
        Some r \<Rightarrow> Some r
      | None \<Rightarrow> if PermissionCreate.user_id p = uid then Some (PermissionCreate.role p) else None)"

section \<open>Sequences of requests whose commits may be refused\<close>

text \<open>
  The same requests, each with the outcome of its commits (the second flag is read by a
  creation only): what the store is after them. A creation whose second commit is refused
  leaves its event without a version.
\<close>

fun serve_op :: "db \<Rightarrow> op \<Rightarrow> bool \<Rightarrow> bool \<Rightarrow> db" where
  "serve_op d (Create u event now) commit1 commit2 =
     fst (create_event d event u now commit1 commit2)"
| "serve_op d (Update u eid event_update now) commit1 commit2 =
     fst (update_event d eid event_update u now commit1)"
| "serve_op d (Rollback u eid version_id now) commit1 commit2 =
     fst (rollback_event d eid version_id u now commit1)"

fun serve :: "db \<Rightarrow> (op \<times> bool \<times> bool) list \<Rightarrow> db" where
  "serve d [] = d"
| "serve d ((x, commit1, commit2) # xs) = serve (serve_op d x commit1 commit2) xs"

definition half_created :: "db \<Rightarrow> db \<Rightarrow> Event \<Rightarrow> bool" where
  "half_created d d' ev \<longleftrightarrow>
     Event.id ev = next_event_id d \<and> events d' = events d @ [ev] \<and>
     next_event_id d' = next_event_id d + 1 \<and> event_versions d' = event_versions d"

definition latest_matches :: "db \<Rightarrow> bool" where
  "latest_matches d \<longleftrightarrow>
     (\<forall>ev \<in> set (events d). \<forall>v.
        first_desc (versions_of d (Event.id ev)) = Some v \<longrightarrow> columns v = columns ev)"

section \<open>A second event, and an event without a version\<close>

text \<open>
  The store \<open>db_two\<close> holds the event of the scenario and a second event, which bob
  created from the body \<open>other\<close> and retitled with the body \<open>change\<close>, with two
  versions of its own. The store \<open>db_half\<close> is what a creation leaves when its
  second commit is refused.
\<close>

definition other_v1 :: EventVersion where
  "other_v1 =
     \<lparr>EventColumns.title = Some ''Other'', description = Some ''Review'',
      start_time = Some 1400, end_time = Some 1500, location = Some ''Room 2'',
      is_recurring = Some False, recurrence_pattern = None, recurrence_end_date = None,
      EventVersion.id = 4, event_id = Some 2, modified_by_id = 2, version_number = 1,
      created_at = 40\<rparr>"

definition other_v2 :: EventVersion where
  "other_v2 =
     other_v1\<lparr>EventColumns.title := Some ''Changed'', EventVersion.id := 5,
       version_number := 2, EventVersion.created_at := 50\<rparr>"

definition other_v3 :: EventVersion where
  "other_v3 = other_v1\<lparr>EventVersion.id := 6, version_number := 3, EventVersion.created_at := 60\<rparr>"

definition other_event :: Event where
  "other_event =
     \<lparr>EventColumns.title = Some ''Changed'', description = Some ''Review'',
      start_time = Some 1400, end_time = Some 1500, location = Some ''Room 2'',
      is_recurring = Some False, recurrence_pattern = None, recurrence_end_date = None,
      Event.id = 2, owner_id = 2, created_at = 40, updated_at = 50\<rparr>"

definition db_two :: db where
  "db_two =
     \<lparr>users = [alice, bob],
      events = [standup_event\<lparr>Event.updated_at := 30\<rparr>, other_event],
      event_versions = [standup_v1, standup_v2, standup_v3, other_v1, other_v2],
      event_permissions = [], next_event_id = 3, next_version_id = 6\<rparr>"

definition other :: EventCreate where
  "other =
     \<lparr>EventCreate.title = ''Other'', EventCreate.description = ''Review'',
      EventCreate.start_time = 1400, EventCreate.end_time = 1500,
      EventCreate.location = Some ''Room 2'', EventCreate.is_recurring = False,
      EventCreate.recurrence_pattern = None, EventCreate.recurrence_end_date = None\<rparr>"

definition change :: EventUpdate where
  "change = no_fields\<lparr>EventUpdate.title := Some (Some ''Changed'')\<rparr>"

definition db_half :: db where
  "db_half =
     \<lparr>users = [alice, bob], events = [standup_event], event_versions = [],
      event_permissions = [], next_event_id = 2, next_version_id = 1\<rparr>"

section \<open>Properties of the queries and of the writes\<close>

declare rolled_back_def [simp]

lemma first_desc_None [simp]: "first_desc vs = None \<longleftrightarrow> vs = []"
  by (induction vs) (auto split: option.splits)

lemma first_desc_Some:
  "first_desc vs = Some w \<Longrightarrow> w \<in> set vs \<and> (\<forall>v \<in> set vs. version_number v \<le> version_number w)"
proof (induction vs arbitrary: w)
  case Nil
  then show ?case by simp
next
  case (Cons v vs)
  show ?case
  proof (cases "first_desc vs")
    case None
    with Cons.prems show ?thesis by simp
  next
    case (Some x)
    from Cons.IH [OF Some] Cons.prems Some show ?thesis
      by (auto split: if_splits)
  qed
qed

lemma query_event_id: "query_event d eid = Some ev \<Longrightarrow> Event.id ev = eid"
  by (auto simp: query_event_def find_Some_iff)

lemma query_event_mem: "query_event d eid = Some ev \<Longrightarrow> ev \<in> set (events d)"
  by (auto simp: query_event_def find_Some_iff)

lemma touch_simps [simp]:
  "Event.id (touch old new now) = Event.id new"
  "Event.owner_id (touch old new now) = Event.owner_id new"
  "columns (touch old new now) = columns new"
  "EventColumns.title (touch old new now) = EventColumns.title new"
  "EventColumns.description (touch old new now) = EventColumns.description new"
  "EventColumns.start_time (touch old new now) = EventColumns.start_time new"
  "EventColumns.end_time (touch old new now) = EventColumns.end_time new"
  "EventColumns.location (touch old new now) = EventColumns.location new"
  "EventColumns.is_recurring (touch old new now) = EventColumns.is_recurring new"
  "EventColumns.recurrence_pattern (touch old new now) = EventColumns.recurrence_pattern new"
  "EventColumns.recurrence_end_date (touch old new now) = EventColumns.recurrence_end_date new"
  by (simp_all add: touch_def columns_def)

lemma apply_update_simps [simp]:
  "Event.id (apply_update e upd) = Event.id e"
  "Event.owner_id (apply_update e upd) = Event.owner_id e"
  by (simp_all add: apply_update_def)

lemma versions_of_store_event [simp]: "versions_of (store_event d e) eid = versions_of d eid"
  by (simp add: versions_of_def store_event_def)

lemma versions_of_add_version:
  "versions_of (add_version d v) eid =
     versions_of d eid @
       (if EventVersion.event_id v = Some eid then [v\<lparr>EventVersion.id := next_version_id d\<rparr>] else [])"
  by (simp add: versions_of_def add_version_def)

lemma next_event_id_simps [simp]:
  "next_event_id (store_event d e) = next_event_id d"
  "next_event_id (add_version d v) = next_event_id d"
  by (simp_all add: store_event_def add_version_def)

lemma create_event_effect:
  "create_event d ec u now True True = (d', r) \<Longrightarrow> \<exists>ev. r = Inr ev \<and> created d d' ev"
  by (auto simp: create_event_def Let_def add_version_def created_def columns_def)

lemma update_event_effect:
  assumes "update_event d eid upd u now True = (d', r)"
  shows "(\<exists>e. r = Inl e \<and> d' = d) \<or> (\<exists>ev. r = Inr ev \<and> modified d d' eid ev)"
proof (cases "query_event d eid")
  case None
  with assms show ?thesis by (auto simp: update_event_def)
next
  case (Some ev0)
  show ?thesis
  proof (cases "Event.owner_id ev0 = User.id u")
    case False
    with Some assms show ?thesis by (auto simp: update_event_def)
  next
    case True
    with Some assms query_event_id [OF Some] show ?thesis
      by (auto simp: update_event_def Let_def query_current_version_def modified_def
            add_version_def store_event_def columns_def)
  qed
qed

lemma rollback_event_effect:
  assumes "rollback_event d eid n u now True = (d', r)"
  shows "(\<exists>e. r = Inl e \<and> d' = d) \<or> (\<exists>ev. r = Inr ev \<and> modified d d' eid ev)"
proof (cases "query_event d eid")
  case None
  with assms show ?thesis by (auto simp: rollback_event_def)
next
  case (Some ev0)
  show ?thesis
  proof (cases "Event.owner_id ev0 = User.id u")
    case False
    with Some assms show ?thesis by (auto simp: rollback_event_def)
  next
    case True
    with Some assms query_event_id [OF Some] show ?thesis
      by (auto simp: rollback_event_def Let_def query_current_version_def modified_def
            add_version_def store_event_def columns_def split: option.splits)
  qed
qed

lemma modified_id: "modified d d' eid ev \<Longrightarrow> Event.id ev = eid"
  by (simp add: modified_def)

lemma logged_effect:
  assumes "logged (d1, r) = (d', l)"
    and "(\<exists>e. r = Inl e \<and> d1 = d) \<or> (\<exists>ev. r = Inr ev \<and> modified d d1 eid ev)"
  shows "(l = [] \<and> d' = d) \<or> (\<exists>ev. l = [Event.id ev] \<and> created d d' ev)
         \<or> (\<exists>eid ev. l = [eid] \<and> modified d d' eid ev)"
  using assms(2)
proof (elim disjE exE conjE)
  fix e assume "r = Inl e" "d1 = d"
  with assms(1) show ?thesis by simp
next
  fix ev assume r: "r = Inr ev" and m: "modified d d1 eid ev"
  from r assms(1) modified_id [OF m] have "l = [eid]" "d' = d1" by simp_all
  with m show ?thesis by blast
qed

lemma exec_op_effect:
  assumes "exec_op d x = (d', l)"
  shows "(l = [] \<and> d' = d) \<or> (\<exists>ev. l = [Event.id ev] \<and> created d d' ev)
         \<or> (\<exists>eid ev. l = [eid] \<and> modified d d' eid ev)"
proof (cases x)
  case (Create u ec now)
  obtain d1 r where c: "create_event d ec u now True True = (d1, r)"
    by (cases "create_event d ec u now True True")
  from create_event_effect [OF c] obtain ev where "r = Inr ev" "created d d1 ev" by blast
  with assms Create c show ?thesis by auto
next
  case (Update u eid upd now)
  obtain d1 r where c: "update_event d eid upd u now True = (d1, r)"
    by (cases "update_event d eid upd u now True")
  from assms Update c have "logged (d1, r) = (d', l)" by simp
  from logged_effect [OF this update_event_effect [OF c]] show ?thesis .
next
  case (Rollback u eid n now)
  obtain d1 r where c: "rollback_event d eid n u now True = (d1, r)"
    by (cases "rollback_event d eid n u now True")
  from assms Rollback c have "logged (d1, r) = (d', l)" by simp
  from logged_effect [OF this rollback_event_effect [OF c]] show ?thesis .
qed

lemma bounded_fresh: "bounded d \<Longrightarrow> versions_of d (next_event_id d) = []"
  by (auto simp: bounded_def versions_of_def filter_empty_conv)

lemma bounded_created: "bounded d \<Longrightarrow> created d d' ev \<Longrightarrow> bounded d'"
  by (fastforce simp: bounded_def created_def)

lemma bounded_modified: "bounded d \<Longrightarrow> modified d d' eid ev \<Longrightarrow> bounded d'"
proof -
  assume b: "bounded d" and m: "modified d d' eid ev"
  from m obtain ev0 where q: "query_event d eid = Some ev0" by (auto simp: modified_def)
  from query_event_id [OF q] query_event_mem [OF q] b have "eid < next_event_id d"
    by (auto simp: bounded_def)
  with b m show ?thesis by (fastforce simp: bounded_def modified_def)
qed

lemma first_desc_last:
  "\<forall>v \<in> set vs. version_number v < version_number w \<Longrightarrow> first_desc (vs @ [w]) = Some w"
  by (induction vs) auto

lemma next_number:
  assumes "map version_number vs = [1..int c]"
  shows "(case first_desc vs of Some cv \<Rightarrow> version_number cv + 1 | None \<Rightarrow> 1) = int c + 1"
proof (cases "first_desc vs")
  case None
  then have "vs = []" by simp
  with assms have "[1..int c] = []" by simp
  then have "c = 0" by simp
  with None show ?thesis by simp
next
  case (Some w)
  from first_desc_Some [OF Some] have w: "w \<in> set vs" and mx: "\<forall>v \<in> set vs. version_number v \<le> version_number w"
    by auto
  from w have "version_number w \<in> set (map version_number vs)" by simp
  with assms have le: "1 \<le> version_number w" "version_number w \<le> int c" by auto
  then have "int c \<in> set [1..int c]" by simp
  with assms have "int c \<in> version_number ` set vs" by (metis set_map)
  with mx have "int c \<le> version_number w" by auto
  with le Some show ?thesis by simp
qed

lemma numbered_created:
  assumes "bounded d" "numbered d log" "created d d' ev"
  shows "numbered d' (log @ [Event.id ev])"
proof -
  from assms(3) obtain v where v: "event_versions d' = event_versions d @ [v]" "version_number v = 1"
    "EventVersion.event_id v = Some (next_event_id d)" and id: "Event.id ev = next_event_id d"
    by (auto simp: created_def)
  have fresh: "versions_of d (next_event_id d) = []" by (rule bounded_fresh [OF assms(1)])
  with assms(2) have "[1..int (count_list log (next_event_id d))] = []"
    by (metis numbered_def list.map(1))
  then have c0: "count_list log (next_event_id d) = 0" by simp
  show ?thesis
    unfolding numbered_def
  proof
    fix e
    show "map version_number (versions_of d' e) = [1..int (count_list (log @ [Event.id ev]) e)]"
    proof (cases "e = next_event_id d")
      case True
      with v fresh c0 id show ?thesis by (simp add: versions_of_def)
    next
      case False
      with v id assms(2) show ?thesis by (simp add: versions_of_def numbered_def)
    qed
  qed
qed

lemma numbered_modified:
  assumes "numbered d log" "modified d d' eid ev"
  shows "numbered d' (log @ [eid])"
proof -
  from assms(2) obtain v where v: "event_versions d' = event_versions d @ [v]"
    "version_number v = (case first_desc (versions_of d eid) of Some cv \<Rightarrow> version_number cv + 1 | None \<Rightarrow> 1)"
    "EventVersion.event_id v = Some eid"
    by (auto simp: modified_def)
  from assms(1) have m: "map version_number (versions_of d eid) = [1..int (count_list log eid)]"
    by (simp add: numbered_def)
  from v(2) next_number [OF m] have n: "version_number v = int (count_list log eid) + 1" by simp
  show ?thesis
    unfolding numbered_def
  proof
    fix e
    show "map version_number (versions_of d' e) = [1..int (count_list (log @ [eid]) e)]"
    proof (cases "e = eid")
      case True
      have "versions_of d' eid = versions_of d eid @ [v]" using v by (simp add: versions_of_def)
      with m n True show ?thesis by (simp add: upto_rec2)
    next
      case False
      with v assms(1) show ?thesis by (simp add: versions_of_def numbered_def)
    qed
  qed
qed


lemma synced_created:
  assumes "bounded d" "synced d" "created d d' ev"
  shows "synced d'"
proof -
  from assms(3) obtain v where v: "event_versions d' = event_versions d @ [v]"
    "EventVersion.event_id v = Some (next_event_id d)" "columns v = columns ev"
    and id: "Event.id ev = next_event_id d" and evs: "events d' = events d @ [ev]"
    by (auto simp: created_def)
  have fresh: "versions_of d (next_event_id d) = []" by (rule bounded_fresh [OF assms(1)])
  show ?thesis
    unfolding synced_def
  proof
    fix x assume "x \<in> set (events d')"
    with evs consider "x = ev" | "x \<in> set (events d)" by auto
    then show "\<exists>v. first_desc (versions_of d' (Event.id x)) = Some v \<and> columns v = columns x"
    proof cases
      case 1
      with v id fresh show ?thesis by (simp add: versions_of_def)
    next
      case 2
      with assms(1) have "Event.id x \<noteq> next_event_id d" by (auto simp: bounded_def)
      with v have "versions_of d' (Event.id x) = versions_of d (Event.id x)"
        by (simp add: versions_of_def)
      with 2 assms(2) show ?thesis by (simp add: synced_def)
    qed
  qed
qed

lemma synced_modified:
  assumes "synced d" "modified d d' eid ev"
  shows "synced d'"
proof -
  from assms(2) obtain v where v: "event_versions d' = event_versions d @ [v]"
    "version_number v = (case first_desc (versions_of d eid) of Some cv \<Rightarrow> version_number cv + 1 | None \<Rightarrow> 1)"
    "EventVersion.event_id v = Some eid" "columns v = columns ev"
    and id: "Event.id ev = eid"
    and evs: "events d' = map (\<lambda>x. if Event.id x = eid then ev else x) (events d)"
    by (auto simp: modified_def)
  have gt: "\<forall>w \<in> set (versions_of d eid). version_number w < version_number v"
  proof (cases "first_desc (versions_of d eid)")
    case None
    then show ?thesis by simp
  next
    case (Some cv)
    from first_desc_Some [OF Some] v(2) Some show ?thesis by fastforce
  qed
  have new: "versions_of d' eid = versions_of d eid @ [v]" using v by (simp add: versions_of_def)
  have latest: "first_desc (versions_of d' eid) = Some v"
    unfolding new by (rule first_desc_last [OF gt])
  show ?thesis
    unfolding synced_def
  proof
    fix x assume "x \<in> set (events d')"
    with evs consider "x = ev" | "x \<in> set (events d)" "Event.id x \<noteq> eid" by auto
    then show "\<exists>v. first_desc (versions_of d' (Event.id x)) = Some v \<and> columns v = columns x"
    proof cases
      case 1
      with latest id v show ?thesis by simp
    next
      case 2
      with v have "versions_of d' (Event.id x) = versions_of d (Event.id x)"
        by (auto simp: versions_of_def)
      with 2 assms(1) show ?thesis by (simp add: synced_def)
    qed
  qed
qed

lemma exec_op_inv:
  assumes "reachable_inv d log" "exec_op d x = (d', l)"
  shows "reachable_inv d' (log @ l)"
  using exec_op_effect [OF assms(2)]
proof (elim disjE exE conjE)
  assume "l = []" "d' = d"
  with assms(1) show ?thesis by simp
next
  fix ev assume l: "l = [Event.id ev]" and c: "created d d' ev"
  from assms(1) have b: "bounded d" and n: "numbered d log" and s: "synced d"
    by (simp_all add: reachable_inv_def)
  from bounded_created [OF b c] numbered_created [OF b n c] synced_created [OF b s c] l
  show ?thesis by (simp add: reachable_inv_def)
next
  fix eid ev assume l: "l = [eid]" and m: "modified d d' eid ev"
  from assms(1) have b: "bounded d" and n: "numbered d log" and s: "synced d"
    by (simp_all add: reachable_inv_def)
  from bounded_modified [OF b m] numbered_modified [OF n m] synced_modified [OF s m] l
  show ?thesis by (simp add: reachable_inv_def)
qed

lemma run_inv:
  "reachable_inv d log \<Longrightarrow> reachable_inv (fst (run d ops)) (log @ snd (run d ops))"
proof (induction ops arbitrary: d log)
  case Nil
  then show ?case by simp
next
  case (Cons x xs)
  obtain d1 l1 where x: "exec_op d x = (d1, l1)" by (cases "exec_op d x")
  obtain d2 l2 where xs: "run d1 xs = (d2, l2)" by (cases "run d1 xs")
  from Cons.IH [OF exec_op_inv [OF Cons.prems x]] xs x show ?case by simp
qed

lemma init_inv: "reachable_inv (init_db us) []"
  by (simp add: reachable_inv_def bounded_def numbered_def synced_def init_db_def versions_of_def)

section \<open>Properties of the difference loop\<close>

lemma diff_loop_acc: "diff_loop fs v1 v2 acc = acc @ diff_loop fs v1 v2 []"
proof (induction fs arbitrary: acc)
  case Nil
  show ?case by simp
next
  case (Cons f fs)
  obtain name getattr where f: "f = (name, getattr)" by (cases f)
  show ?case
    using Cons.IH [of "acc @ [\<lparr>DiffItem.field = name, DiffItem.old_value = getattr v1, DiffItem.new_value = getattr v2\<rparr>]"]
      Cons.IH [of "[\<lparr>DiffItem.field = name, DiffItem.old_value = getattr v1, DiffItem.new_value = getattr v2\<rparr>]"]
      Cons.IH [of acc]
    by (simp add: f Let_def)
qed

lemma diff_loop_Cons:
  "diff_loop ((name, getattr) # fs) v1 v2 [] =
     (if getattr v1 \<noteq> getattr v2
      then \<lparr>DiffItem.field = name, DiffItem.old_value = getattr v1, DiffItem.new_value = getattr v2\<rparr>
             # diff_loop fs v1 v2 []
      else diff_loop fs v1 v2 [])"
  using diff_loop_acc [of fs v1 v2 "[\<lparr>DiffItem.field = name, DiffItem.old_value = getattr v1, DiffItem.new_value = getattr v2\<rparr>]"]
  by (simp add: Let_def)

lemma py_inject:
  "py PyStr a = py PyStr b \<longleftrightarrow> a = b"
  "py PyDateTime c = py PyDateTime e \<longleftrightarrow> c = e"
  "py PyBool f = py PyBool g \<longleftrightarrow> f = g"
  "py PyPattern h = py PyPattern k \<longleftrightarrow> h = k"
proof -
  show "py PyStr a = py PyStr b \<longleftrightarrow> a = b" by (cases a; cases b; simp)
  show "py PyDateTime c = py PyDateTime e \<longleftrightarrow> c = e" by (cases c; cases e; simp)
  show "py PyBool f = py PyBool g \<longleftrightarrow> f = g" by (cases f; cases g; simp)
  show "py PyPattern h = py PyPattern k \<longleftrightarrow> h = k" by (cases h; cases k; simp)
qed

lemma diff_loop_field:
  "diff_loop ((name, \<lambda>v. py PyStr (s v)) # fs) v1 v2 [] =
     diff_entry name PyStr (s v1) (s v2) @ diff_loop fs v1 v2 []"
  "diff_loop ((name, \<lambda>v. py PyDateTime (t v)) # fs) v1 v2 [] =
     diff_entry name PyDateTime (t v1) (t v2) @ diff_loop fs v1 v2 []"
  "diff_loop ((name, \<lambda>v. py PyBool (b v)) # fs) v1 v2 [] =
     diff_entry name PyBool (b v1) (b v2) @ diff_loop fs v1 v2 []"
  "diff_loop ((name, \<lambda>v. py PyPattern (p v)) # fs) v1 v2 [] =
     diff_entry name PyPattern (p v1) (p v2) @ diff_loop fs v1 v2 []"
  by (simp_all add: diff_loop_Cons diff_entry_def py_inject del: diff_loop.simps)

lemma diff_loop_tracked: "diff_loop tracked_fields v1 v2 [] = diff_spec v1 v2"
  unfolding tracked_fields_def diff_spec_def
  by (simp only: diff_loop_field diff_loop.simps(1) append_Nil2 append_assoc)

lemma diff_loop_swap: "diff_loop fs v2 v1 [] = map swap_item (diff_loop fs v1 v2 [])"
proof (induction fs)
  case Nil
  show ?case by simp
next
  case (Cons f fs)
  obtain name getattr where f: "f = (name, getattr)" by (cases f)
  show ?case unfolding f diff_loop_Cons using Cons.IH by (auto simp: swap_item_def)
qed

lemma diff_loop_same: "diff_loop fs v v [] = []"
proof (induction fs)
  case Nil
  show ?case by simp
next
  case (Cons f fs)
  obtain name getattr where f: "f = (name, getattr)" by (cases f)
  show ?case unfolding f diff_loop_Cons using Cons.IH by simp
qed


section \<open>The scenario, evaluated\<close>

lemmas example_defs = alice_def bob_def standup_def no_fields_def retitle_def standup_v1_def
  standup_v2_def standup_v3_def standup_event_def db1_def db2_def db3_def init_db_def

lemmas query_defs = query_event_def query_user_def query_version_def versions_of_def
  query_current_version_def permissions_of_def

lemma db1_created: "create_event (init_db [alice, bob]) standup alice 10 True True = (db1, Inr standup_event)"
  by (simp add: create_event_def Let_def add_version_def example_defs)

lemma db2_updated:
  "update_event db1 1 retitle alice 20 True =
     (db2, Inr (standup_event\<lparr>EventColumns.title := Some ''Daily Standup'', Event.updated_at := 20\<rparr>))"
  by (simp add: update_event_def Let_def add_version_def store_event_def touch_def columns_def
        apply_update_def query_defs example_defs)

lemma db3_rolled_back:
  "rollback_event db2 1 1 alice 30 True = (db3, Inr (standup_event\<lparr>Event.updated_at := 30\<rparr>))"
  by (simp add: rollback_event_def Let_def add_version_def store_event_def touch_def columns_def
        query_defs example_defs)

lemma scenario_run:
  "run (init_db [alice, bob]) [Create alice standup 10, Update alice 1 retitle 20, Rollback alice 1 1 30] = (db3, [1, 1, 1])"
  by (simp add: db1_created db2_updated db3_rolled_back) (simp add: example_defs)

section \<open>The guards of the event-scoped requests\<close>









lemma get_event_diff_owner:
  assumes "query_event d eid = Some ev" "Event.owner_id ev = User.id u"
  shows "get_event_diff d eid a b u =
     (case (query_version d eid a, query_version d eid b) of
        (Some va, Some vb) \<Rightarrow>
          (d, Inr \<lparr>VersionDiff.version1 = a, VersionDiff.version2 = b,
                   VersionDiff.differences = diff_loop tracked_fields va vb []\<rparr>)
      | _ \<Rightarrow> (d, Inl (HTTPException 404 ''One or both versions not found'')))"
  using assms by (simp add: get_event_diff_def split: option.splits)

lemma get_event_diff_Inr:
  assumes "get_event_diff d eid a b u = (d', Inr r)"
  shows "\<exists>ev va vb. query_event d eid = Some ev \<and> Event.owner_id ev = User.id u \<and>
           query_version d eid a = Some va \<and> query_version d eid b = Some vb \<and> d' = d \<and>
           r = \<lparr>VersionDiff.version1 = a, VersionDiff.version2 = b,
                 VersionDiff.differences = diff_loop tracked_fields va vb []\<rparr>"
  using assms by (auto simp: get_event_diff_def split: option.splits if_splits)

section \<open>What an update and a rollback write\<close>

lemma find_replace:
  "find (\<lambda>e. Event.id e = Event.id ev) (map (\<lambda>x. if Event.id x = Event.id ev then ev else x) xs) =
     (case find (\<lambda>e. Event.id e = Event.id ev) xs of None \<Rightarrow> None | Some y \<Rightarrow> Some ev)"
  by (induction xs) auto

lemma query_event_stored:
  assumes "query_event d eid = Some ev0" "Event.id ev = eid"
  shows "query_event (add_version (store_event d ev) v) eid = Some ev"
  using assms find_replace [of ev "events d"]
  by (simp add: query_event_def add_version_def store_event_def)

lemma event_versions_add_version:
  "event_versions (add_version d v) = event_versions d @ [v\<lparr>EventVersion.id := next_version_id d\<rparr>]"
  by (simp add: add_version_def)

lemma event_versions_store_event [simp]: "event_versions (store_event d e) = event_versions d"
  by (simp add: store_event_def)

lemma next_version_id_store_event [simp]: "next_version_id (store_event d e) = next_version_id d"
  by (simp add: store_event_def)

lemma first_desc_greater:
  assumes "first_desc vs = Some cv"
  shows "\<forall>w \<in> set vs. version_number w < version_number cv + 1"
  using first_desc_Some [OF assms] by fastforce

lemma find_append_None: "find P xs = None \<Longrightarrow> find P (xs @ ys) = find P ys"
  by (induction xs) auto

lemma query_version_new:
  assumes "\<forall>w \<in> set (versions_of d eid). version_number w < version_number v"
    and "EventVersion.event_id v = Some eid" "event_versions d' = event_versions d @ [v]"
  shows "query_version d' eid (version_number v) = Some v"
proof -
  have "versions_of d' eid = versions_of d eid @ [v]"
    using assms(2,3) by (simp add: versions_of_def)
  moreover have "find (\<lambda>w. version_number w = version_number v) (versions_of d eid) = None"
    using assms(1) by (auto simp: find_None_iff)
  ultimately show ?thesis by (simp add: query_version_def find_append_None)
qed


lemma update_event_owner:
  assumes "query_event d eid = Some ev0" "Event.owner_id ev0 = User.id u"
  shows "\<exists>new. update_event d eid upd u now True =
           (add_version (store_event d (touch ev0 (apply_update ev0 upd) now)) new,
            Inr (touch ev0 (apply_update ev0 upd) now)) \<and>
         columns new = columns (apply_update ev0 upd) \<and>
         EventVersion.event_id new = Some eid \<and>
         EventVersion.modified_by_id new = User.id u \<and>
         version_number new =
           (case query_current_version d eid of Some cv \<Rightarrow> version_number cv + 1 | None \<Rightarrow> 1)"
  using assms query_event_id [OF assms(1)]
  apply (simp add: update_event_def Let_def columns_def)
  apply (rule exI, intro conjI, rule refl)
  apply simp_all
  done

lemma columns_eq_iff:
  "columns a = columns b \<longleftrightarrow>
     EventColumns.title a = EventColumns.title b \<and>
     EventColumns.description a = EventColumns.description b \<and>
     EventColumns.start_time a = EventColumns.start_time b \<and>
     EventColumns.end_time a = EventColumns.end_time b \<and>
     EventColumns.location a = EventColumns.location b \<and>
     EventColumns.is_recurring a = EventColumns.is_recurring b \<and>
     EventColumns.recurrence_pattern a = EventColumns.recurrence_pattern b \<and>
     EventColumns.recurrence_end_date a = EventColumns.recurrence_end_date b"
  by (simp add: columns_def)

lemma columns_set_id [simp]: "columns (v\<lparr>EventVersion.id := i\<rparr>) = columns v"
  by (simp add: columns_def)

lemma touch_keeps [simp]:
  "Event.created_at (touch old new now) = Event.created_at new"
  by (simp add: touch_def)

lemma rollback_event_Inr:
  assumes "rollback_event d eid n u now True = (d', Inr ev)"
  shows "\<exists>ev0 target cv new.
           query_event d eid = Some ev0 \<and> Event.owner_id ev0 = User.id u \<and>
           query_version d eid n = Some target \<and>
           query_current_version d eid = Some cv \<and>
           d' = add_version (store_event d ev) new \<and>
           Event.id ev = eid \<and> Event.owner_id ev = Event.owner_id ev0 \<and>
           columns ev = columns target \<and> columns new = columns target \<and>
           EventVersion.event_id new = Some eid \<and>
           EventVersion.modified_by_id new = User.id u \<and>
           version_number new = version_number cv + 1"
proof (cases "query_event d eid")
  case None
  with assms show ?thesis by (simp add: rollback_event_def)
next
  case (Some ev0)
  note q = Some
  show ?thesis
  proof (cases "Event.owner_id ev0 = User.id u")
    case False
    with q assms show ?thesis by (simp add: rollback_event_def)
  next
    case True
    note o = True
    show ?thesis
    proof (cases "query_version d eid n")
      case None
      with q o assms show ?thesis by (simp add: rollback_event_def)
    next
      case (Some target)
      note t = Some
      show ?thesis
      proof (cases "query_current_version d eid")
        case None
        with q o t assms show ?thesis by (simp add: rollback_event_def Let_def)
      next
        case (Some cv)
        let ?event = "ev0\<lparr>EventColumns.title := EventColumns.title target,
              EventColumns.description := EventColumns.description target,
              EventColumns.start_time := EventColumns.start_time target,
              EventColumns.end_time := EventColumns.end_time target,
              EventColumns.location := EventColumns.location target,
              EventColumns.is_recurring := EventColumns.is_recurring target,
              EventColumns.recurrence_pattern := EventColumns.recurrence_pattern target,
              EventColumns.recurrence_end_date := EventColumns.recurrence_end_date target\<rparr>"
        let ?new = "\<lparr>EventColumns.title = EventColumns.title target,
            description = EventColumns.description target,
            start_time = EventColumns.start_time target,
            end_time = EventColumns.end_time target,
            location = EventColumns.location target,
            is_recurring = EventColumns.is_recurring target,
            recurrence_pattern = EventColumns.recurrence_pattern target,
            recurrence_end_date = EventColumns.recurrence_end_date target,
            EventVersion.id = 0, event_id = Some eid,
            modified_by_id = User.id u, version_number = version_number cv + 1,
            created_at = now\<rparr>"
        have "rollback_event d eid n u now True =
            (add_version (store_event d (touch ev0 ?event now)) ?new, Inr (touch ev0 ?event now))"
          using q o t Some query_event_id [OF q] by (simp add: rollback_event_def Let_def)
        with assms have ev: "ev = touch ev0 ?event now"
          and "d' = add_version (store_event d (touch ev0 ?event now)) ?new" by auto
        then have d': "d' = add_version (store_event d ev) ?new" by simp
        have "Event.id ev = eid" "Event.owner_id ev = Event.owner_id ev0"
          "columns ev = columns target" "columns ?new = columns target"
          using query_event_id [OF q] by (simp_all add: ev columns_def)
        with q o t Some d' show ?thesis
          by (intro exI [of _ ev0] exI [of _ target] exI [of _ cv] exI [of _ ?new]) simp
      qed
    qed
  qed
qed

lemma apply_update_no_fields [simp]: "apply_update e no_fields = e"
  by (simp add: apply_update_def no_fields_def)

lemma touch_same [simp]: "touch e e now = e"
  by (simp add: touch_def)

section \<open>The loop of a share request\<close>

declare str_nat.simps [simp del]

lemma query_user_permissions [simp]:
  "query_user (d\<lparr>event_permissions := ps\<rparr>) uid = query_user d uid"
  by (simp add: query_user_def)



lemma grants_update:
  "grants (d\<lparr>event_permissions :=
              map (\<lambda>r. if PermissionRow.event_id r = eid \<and> PermissionRow.user_id r = uid'
                        then r\<lparr>PermissionRow.role := x\<rparr> else r)
                (event_permissions d)\<rparr>) eid uid =
     (if uid = uid' then map (\<lambda>r. r\<lparr>PermissionRow.role := x\<rparr>) (grants d eid uid)
      else grants d eid uid)"
proof -
  have h: "filter (\<lambda>p. PermissionRow.event_id p = eid \<and> PermissionRow.user_id p = uid)
          (map (\<lambda>r. if PermissionRow.event_id r = eid \<and> PermissionRow.user_id r = uid'
                     then r\<lparr>PermissionRow.role := x\<rparr> else r) rows) =
        (if uid = uid'
         then map (\<lambda>r. r\<lparr>PermissionRow.role := x\<rparr>)
                (filter (\<lambda>p. PermissionRow.event_id p = eid \<and> PermissionRow.user_id p = uid) rows)
         else filter (\<lambda>p. PermissionRow.event_id p = eid \<and> PermissionRow.user_id p = uid) rows)"
    for rows
    by (induction rows) auto
  have e: "event_permissions (d\<lparr>event_permissions := rows\<rparr>) = rows" for rows
    by simp
  show ?thesis unfolding grants_def e by (rule h)
qed

lemma grants_insert:
  "grants (d\<lparr>event_permissions := event_permissions d @ [r]\<rparr>) eid uid =
     grants d eid uid @
       (if PermissionRow.event_id r = eid \<and> PermissionRow.user_id r = uid then [r] else [])"
  by (simp add: grants_def)

lemma find_grants:
  "find (\<lambda>r. PermissionRow.event_id r = eid \<and> PermissionRow.user_id r = uid)
     (event_permissions d) = None \<longleftrightarrow> grants d eid uid = []"
  by (auto simp: grants_def find_None_iff filter_empty_conv)

text \<open>What the loop of a batch leaves for one (event, user) pair.\<close>

lemma share_loop_grants:
  "share_loop d eid ps now = Inr d' \<Longrightarrow>
     (case last_role ps uid of
        None \<Rightarrow> grants d' eid uid = grants d eid uid
      | Some x \<Rightarrow>
          length (grants d' eid uid) = max 1 (length (grants d eid uid)) \<and>
          (\<forall>g \<in> set (grants d' eid uid). PermissionRow.role g = x))"
proof (induction ps arbitrary: d)
  case Nil
  then show ?case by simp
next
  case (Cons p ps)
  let ?u = "PermissionCreate.user_id p"
  let ?x = "PermissionCreate.role p"
  from Cons.prems obtain user where user: "query_user d ?u = Some user"
    by (cases "query_user d ?u") simp_all
  define d1 where "d1 =
    (case find (\<lambda>r. PermissionRow.event_id r = eid \<and> PermissionRow.user_id r = ?u)
            (event_permissions d) of
       Some existing \<Rightarrow>
         d\<lparr>event_permissions :=
             map (\<lambda>r. if PermissionRow.event_id r = eid \<and> PermissionRow.user_id r = ?u
                       then r\<lparr>PermissionRow.role := ?x\<rparr> else r)
               (event_permissions d)\<rparr>
     | None \<Rightarrow>
         d\<lparr>event_permissions :=
             event_permissions d @
               [\<lparr>PermissionRow.event_id = eid, PermissionRow.user_id = ?u,
                 PermissionRow.role = ?x, PermissionRow.created_at = now\<rparr>]\<rparr>)"
  from Cons.prems user have loop: "share_loop d1 eid ps now = Inr d'"
    by (simp add: d1_def split: option.splits)
  have other: "grants d1 eid uid = grants d eid uid" if "uid \<noteq> ?u"
    using that by (auto simp: d1_def grants_update grants_insert split: option.splits)
  have same: "length (grants d1 eid uid) = max 1 (length (grants d eid uid)) \<and>
              (\<forall>g \<in> set (grants d1 eid uid). PermissionRow.role g = ?x)" if "uid = ?u"
  proof (cases "grants d eid ?u = []")
    case True
    then have "find (\<lambda>r. PermissionRow.event_id r = eid \<and> PermissionRow.user_id r = ?u)
                 (event_permissions d) = None"
      by (simp add: find_grants)
    with True that show ?thesis by (simp add: d1_def grants_insert)
  next
    case False
    then obtain existing where
      "find (\<lambda>r. PermissionRow.event_id r = eid \<and> PermissionRow.user_id r = ?u)
         (event_permissions d) = Some existing"
      using find_grants [of eid ?u d] by (cases "find (\<lambda>r. PermissionRow.event_id r = eid \<and> PermissionRow.user_id r = ?u) (event_permissions d)") auto
    moreover from False have "1 \<le> length (grants d eid ?u)"
      by (cases "grants d eid ?u") simp_all
    ultimately show ?thesis using that by (simp add: d1_def grants_update)
  qed
  show ?case
  proof (cases "last_role ps uid")
    case None
    with Cons.IH [OF loop] have eq: "grants d' eid uid = grants d1 eid uid" by simp
    show ?thesis
    proof (cases "uid = ?u")
      case True
      with same None eq show ?thesis by simp
    next
      case False
      with other None eq show ?thesis by simp
    qed
  next
    case (Some x)
    with Cons.IH [OF loop] have ih: "length (grants d' eid uid) = max 1 (length (grants d1 eid uid))"
      "\<forall>g \<in> set (grants d' eid uid). PermissionRow.role g = x"
      by simp_all
    show ?thesis
    proof (cases "uid = ?u")
      case True
      with same ih Some show ?thesis by simp
    next
      case False
      with other ih Some show ?thesis by simp
    qed
  qed
qed

lemma share_event_Inr:
  "share_event d eid ps u now True = (d', Inr r) \<Longrightarrow> share_loop d eid ps now = Inr d'"
  by (auto simp: share_event_def split: option.splits if_splits sum.splits)

lemma rollback_event_written:
  assumes "rollback_event d eid n u now True = (d', Inr ev)"
  shows "\<exists>target new.
      get_event_version d eid n u = (d, Inr target) \<and>
      event_versions d' = event_versions d @ [new] \<and>
      query_event d' eid = Some ev \<and>
      columns ev = columns target \<and>
      query_current_version d' eid = Some new \<and>
      get_event_version d' eid (version_number new) u = (d', Inr new) \<and>
      columns new = columns target \<and>
      EventVersion.event_id new = Some eid \<and>
      EventVersion.modified_by_id new = User.id u \<and>
      (\<forall>w \<in> set (versions_of d eid). version_number w < version_number new)"
proof -
  from rollback_event_Inr [OF assms] obtain ev0 target cv new where
    q: "query_event d eid = Some ev0" and o: "Event.owner_id ev0 = User.id u"
    and t: "query_version d eid n = Some target"
    and c: "query_current_version d eid = Some cv"
    and d': "d' = add_version (store_event d ev) new"
    and ev: "Event.id ev = eid" "Event.owner_id ev = Event.owner_id ev0"
      "columns ev = columns target"
    and new: "columns new = columns target" "EventVersion.event_id new = Some eid"
      "EventVersion.modified_by_id new = User.id u" "version_number new = version_number cv + 1"
    by blast
  let ?new = "new\<lparr>EventVersion.id := next_version_id d\<rparr>"
  have g: "get_event_version d eid n u = (d, Inr target)"
    using q o t by (simp add: get_event_version_def)
  have vs: "event_versions d' = event_versions d @ [?new]"
    by (simp add: d' event_versions_add_version)
  have qe: "query_event d' eid = Some ev"
    unfolding d' by (rule query_event_stored [OF q ev(1)])
  have gt: "\<forall>w \<in> set (versions_of d eid). version_number w < version_number ?new"
    using first_desc_greater [of "versions_of d eid" cv] c new(4)
    by (simp add: query_current_version_def)
  have eid: "EventVersion.event_id ?new = Some eid" using new(2) by simp
  have "versions_of d' eid = versions_of d eid @ [?new]"
    using vs eid by (simp add: versions_of_def)
  with first_desc_last [OF gt] have cur: "query_current_version d' eid = Some ?new"
    by (simp add: query_current_version_def)
  have "query_version d' eid (version_number ?new) = Some ?new"
    by (rule query_version_new [OF gt eid vs])
  with qe ev(2) o have g': "get_event_version d' eid (version_number ?new) u = (d', Inr ?new)"
    by (simp add: get_event_version_def)
  have cn: "columns ?new = columns target" "EventVersion.modified_by_id ?new = User.id u"
    using new by simp_all
  from g vs qe ev(3) cur g' cn eid gt show ?thesis
    by (intro exI [of _ target] exI [of _ ?new] conjI) assumption+
qed

lemma regrant_written:
  assumes "share_event d eid ps1 u1 now1 True = (d1, Inr r1)"
    and "share_event d1 eid ps2 u2 now2 True = (d2, Inr r2)"
    and "last_role ps1 uid = Some role1" "last_role ps2 uid = Some role2"
  shows "length (grants d2 eid uid) = length (grants d1 eid uid) \<and>
         (\<forall>g \<in> set (grants d2 eid uid). PermissionRow.role g = role2) \<and>
         (length (grants d eid uid) \<le> 1 \<longrightarrow>
            (\<exists>g. grants d2 eid uid = [g] \<and> PermissionRow.role g = role2))"
proof -
  from share_loop_grants [OF share_event_Inr [OF assms(1)], of uid] assms(3)
  have l1: "length (grants d1 eid uid) = max 1 (length (grants d eid uid))" by simp
  from share_loop_grants [OF share_event_Inr [OF assms(2)], of uid] assms(4)
  have l2: "length (grants d2 eid uid) = max 1 (length (grants d1 eid uid))"
    and r2: "\<forall>g \<in> set (grants d2 eid uid). PermissionRow.role g = role2" by simp_all
  from l1 l2 have len: "length (grants d2 eid uid) = length (grants d1 eid uid)" by simp
  have "\<exists>g. grants d2 eid uid = [g] \<and> PermissionRow.role g = role2"
    if "length (grants d eid uid) \<le> 1"
  proof -
    from that l1 l2 have "length (grants d2 eid uid) = 1" by simp
    then obtain g where "grants d2 eid uid = [g]"
      by (cases "grants d2 eid uid") simp_all
    with r2 show ?thesis by simp
  qed
  with len r2 show ?thesis by blast
qed

lemma rollback_event_succeeds:
  assumes "query_event d eid = Some ev0" "Event.owner_id ev0 = User.id u"
    and "query_version d eid n = Some target"
  shows "\<exists>d' ev. rollback_event d eid n u now True = (d', Inr ev)"
proof -
  from assms(3) have "versions_of d eid \<noteq> []"
    by (auto simp: query_version_def)
  then obtain cv where "query_current_version d eid = Some cv"
    by (cases "first_desc (versions_of d eid)") (simp_all add: query_current_version_def)
  with assms show ?thesis by (simp add: rollback_event_def Let_def)
qed

lemma share_loop_keeps:
  "share_loop d eid ps now = Inr d' \<Longrightarrow> users d' = users d \<and> events d' = events d"
proof (induction ps arbitrary: d)
  case Nil
  then show ?case by simp
next
  case (Cons p ps)
  from Cons.prems obtain user where
    user: "query_user d (PermissionCreate.user_id p) = Some user"
    by (cases "query_user d (PermissionCreate.user_id p)") simp_all
  show ?case
  proof (cases "find (\<lambda>r. PermissionRow.event_id r = eid
                          \<and> PermissionRow.user_id r = PermissionCreate.user_id p)
                  (event_permissions d)")
    case None
    with Cons.prems user Cons.IH [of "d\<lparr>event_permissions :=
                      event_permissions d @
                        [\<lparr>PermissionRow.event_id = eid,
                          PermissionRow.user_id = PermissionCreate.user_id p,
                          PermissionRow.role = PermissionCreate.role p,
                          PermissionRow.created_at = now\<rparr>]\<rparr>"]
    show ?thesis by simp
  next
    case (Some existing)
    with Cons.prems user Cons.IH [of "d\<lparr>event_permissions :=
                      map (\<lambda>r. if PermissionRow.event_id r = eid
                                   \<and> PermissionRow.user_id r = PermissionCreate.user_id p
                                then r\<lparr>PermissionRow.role := PermissionCreate.role p\<rparr>
                                else r)
                        (event_permissions d)\<rparr>"]
    show ?thesis by simp
  qed
qed

lemma share_loop_succeeds:
  "\<forall>p \<in> set ps. query_user d (PermissionCreate.user_id p) \<noteq> None \<Longrightarrow>
   \<exists>d'. share_loop d eid ps now = Inr d'"
proof (induction ps arbitrary: d)
  case Nil
  then show ?case by simp
next
  case (Cons p ps)
  from Cons.prems obtain user where
    user: "query_user d (PermissionCreate.user_id p) = Some user" by auto
  from Cons.prems have rest:
    "\<forall>p \<in> set ps. query_user (d\<lparr>event_permissions := rows\<rparr>) (PermissionCreate.user_id p) \<noteq> None"
    for rows by simp
  show ?case
  proof (cases "find (\<lambda>r. PermissionRow.event_id r = eid
                          \<and> PermissionRow.user_id r = PermissionCreate.user_id p)
                  (event_permissions d)")
    case None
    with user Cons.IH [OF rest] show ?thesis by simp
  next
    case (Some existing)
    with user Cons.IH [OF rest] show ?thesis by simp
  qed
qed

lemma share_event_succeeds:
  assumes "query_event d eid = Some ev" "Event.owner_id ev = User.id u"
    and "\<forall>p \<in> set ps. query_user d (PermissionCreate.user_id p) \<noteq> None"
  shows "\<exists>d' r. share_event d eid ps u now True = (d', Inr r) \<and>
           query_event d' eid = Some ev \<and> users d' = users d"
proof -
  from share_loop_succeeds [OF assms(3), of eid now] obtain d' where
    l: "share_loop d eid ps now = Inr d'" by blast
  from share_loop_keeps [OF l] assms(1) have "query_event d' eid = Some ev" "users d' = users d"
    by (simp_all add: query_event_def)
  with l assms(1,2) show ?thesis by (simp add: share_event_def)
qed

section \<open>Versions as rows of the table\<close>

lemmas two_defs = other_v1_def other_v2_def other_v3_def other_event_def db_two_def

lemma find_filter: "find P (filter Q xs) = find (\<lambda>x. Q x \<and> P x) xs"
  by (induction xs) auto

lemma query_version_table:
  "query_version d eid n =
     find (\<lambda>v. EventVersion.event_id v = Some eid \<and> version_number v = n) (event_versions d)"
  by (simp add: query_version_def versions_of_def find_filter)

lemma query_version_absent:
  "query_version d eid n = None \<longleftrightarrow>
     (\<forall>v \<in> set (event_versions d). EventVersion.event_id v = Some eid \<longrightarrow> version_number v \<noteq> n)"
  by (auto simp: query_version_table find_None_iff)

lemma query_version_row:
  assumes "query_version d eid n = Some target"
  shows "target \<in> set (event_versions d)" "EventVersion.event_id target = Some eid"
    "version_number target = n"
  using assms by (auto simp: query_version_table find_Some_iff)

lemma query_current_version_None:
  "query_current_version d eid = None \<longleftrightarrow>
     (\<forall>w \<in> set (event_versions d). EventVersion.event_id w \<noteq> Some eid)"
  by (auto simp: query_current_version_def versions_of_def filter_empty_conv)

lemma query_current_version_row:
  assumes "query_current_version d eid = Some prev"
  shows "prev \<in> set (event_versions d)" "EventVersion.event_id prev = Some eid"
    "\<forall>w \<in> set (event_versions d).
       EventVersion.event_id w = Some eid \<longrightarrow> version_number w \<le> version_number prev"
  using first_desc_Some [of "versions_of d eid" prev] assms
  by (auto simp: query_current_version_def versions_of_def)

section \<open>Stores reached when commits may be refused\<close>

lemma create_event_any:
  "create_event d ec u now c1 c2 = (d', r) \<Longrightarrow>
     d' = d \<or> (\<exists>ev. created d d' ev) \<or> (\<exists>ev. half_created d d' ev)"
proof (cases c1)
  case False
  assume "create_event d ec u now c1 c2 = (d', r)"
  with False show ?thesis by (auto simp: create_event_def Let_def)
next
  case True
  assume h: "create_event d ec u now c1 c2 = (d', r)"
  show ?thesis
  proof (cases c2)
    case True
    with \<open>c1\<close> h create_event_effect [of d ec u now d' r] show ?thesis by auto
  next
    case False
    with \<open>c1\<close> h have "\<exists>ev. half_created d d' ev"
      by (auto simp: create_event_def Let_def half_created_def)
    then show ?thesis by simp
  qed
qed

lemma update_event_any:
  "update_event d eid upd u now c = (d', r) \<Longrightarrow> d' = d \<or> (\<exists>ev. modified d d' eid ev)"
proof (cases c)
  case True
  assume "update_event d eid upd u now c = (d', r)"
  with True update_event_effect [of d eid upd u now d' r] show ?thesis by auto
next
  case False
  assume "update_event d eid upd u now c = (d', r)"
  with False have "d' = d"
    by (auto simp: update_event_def Let_def split: option.splits if_splits)
  then show ?thesis by simp
qed

lemma rollback_event_any:
  "rollback_event d eid n u now c = (d', r) \<Longrightarrow> d' = d \<or> (\<exists>ev. modified d d' eid ev)"
proof (cases c)
  case True
  assume "rollback_event d eid n u now c = (d', r)"
  with True rollback_event_effect [of d eid n u now d' r] show ?thesis by auto
next
  case False
  assume "rollback_event d eid n u now c = (d', r)"
  with False have "d' = d"
    by (auto simp: rollback_event_def Let_def split: option.splits if_splits)
  then show ?thesis by simp
qed

lemma serve_op_effect:
  "serve_op d x c1 c2 = d' \<Longrightarrow>
     d' = d \<or> (\<exists>ev. created d d' ev) \<or> (\<exists>eid ev. modified d d' eid ev)
     \<or> (\<exists>ev. half_created d d' ev)"
proof (cases x)
  case (Create u ec now)
  assume "serve_op d x c1 c2 = d'"
  with Create have "create_event d ec u now c1 c2 = (d', snd (create_event d ec u now c1 c2))"
    by (cases "create_event d ec u now c1 c2") simp
  from create_event_any [OF this] show ?thesis by blast
next
  case (Update u eid upd now)
  assume "serve_op d x c1 c2 = d'"
  with Update have "update_event d eid upd u now c1 = (d', snd (update_event d eid upd u now c1))"
    by (cases "update_event d eid upd u now c1") simp
  from update_event_any [OF this] show ?thesis by blast
next
  case (Rollback u eid n now)
  assume "serve_op d x c1 c2 = d'"
  with Rollback have "rollback_event d eid n u now c1 = (d', snd (rollback_event d eid n u now c1))"
    by (cases "rollback_event d eid n u now c1") simp
  from rollback_event_any [OF this] show ?thesis by blast
qed

lemma bounded_half_created: "bounded d \<Longrightarrow> half_created d d' ev \<Longrightarrow> bounded d'"
  by (fastforce simp: bounded_def half_created_def)

lemma latest_matches_created:
  assumes "bounded d" "latest_matches d" "created d d' ev"
  shows "latest_matches d'"
proof -
  from assms(3) obtain v where v: "event_versions d' = event_versions d @ [v]"
    "EventVersion.event_id v = Some (next_event_id d)" "columns v = columns ev"
    and id: "Event.id ev = next_event_id d" and evs: "events d' = events d @ [ev]"
    by (auto simp: created_def)
  have fresh: "versions_of d (next_event_id d) = []" by (rule bounded_fresh [OF assms(1)])
  show ?thesis
    unfolding latest_matches_def
  proof (intro ballI allI impI)
    fix x w assume x: "x \<in> set (events d')"
      and w: "first_desc (versions_of d' (Event.id x)) = Some w"
    from x evs consider "x = ev" | "x \<in> set (events d)" by auto
    then show "columns w = columns x"
    proof cases
      case 1
      with v id fresh w show ?thesis by (simp add: versions_of_def)
    next
      case 2
      with assms(1) have "Event.id x \<noteq> next_event_id d" by (auto simp: bounded_def)
      with v have "versions_of d' (Event.id x) = versions_of d (Event.id x)"
        by (simp add: versions_of_def)
      with 2 assms(2) w show ?thesis by (simp add: latest_matches_def)
    qed
  qed
qed

lemma latest_matches_half_created:
  assumes "bounded d" "latest_matches d" "half_created d d' ev"
  shows "latest_matches d'"
proof -
  from assms(3) have vs: "event_versions d' = event_versions d"
    and id: "Event.id ev = next_event_id d" and evs: "events d' = events d @ [ev]"
    by (auto simp: half_created_def)
  have fresh: "versions_of d (next_event_id d) = []" by (rule bounded_fresh [OF assms(1)])
  from vs have same: "versions_of d' e = versions_of d e" for e by (simp add: versions_of_def)
  show ?thesis
    unfolding latest_matches_def
  proof (intro ballI allI impI)
    fix x w assume x: "x \<in> set (events d')"
      and w: "first_desc (versions_of d' (Event.id x)) = Some w"
    from x evs consider "x = ev" | "x \<in> set (events d)" by auto
    then show "columns w = columns x"
    proof cases
      case 1
      with id fresh w same show ?thesis by simp
    next
      case 2
      with assms(2) w same show ?thesis by (simp add: latest_matches_def)
    qed
  qed
qed

lemma latest_matches_modified:
  assumes "latest_matches d" "modified d d' eid ev"
  shows "latest_matches d'"
proof -
  from assms(2) obtain v where v: "event_versions d' = event_versions d @ [v]"
    "version_number v = (case first_desc (versions_of d eid) of Some cv \<Rightarrow> version_number cv + 1 | None \<Rightarrow> 1)"
    "EventVersion.event_id v = Some eid" "columns v = columns ev"
    and id: "Event.id ev = eid"
    and evs: "events d' = map (\<lambda>x. if Event.id x = eid then ev else x) (events d)"
    by (auto simp: modified_def)
  have gt: "\<forall>w \<in> set (versions_of d eid). version_number w < version_number v"
  proof (cases "first_desc (versions_of d eid)")
    case None
    then show ?thesis by simp
  next
    case (Some cv)
    from first_desc_Some [OF Some] v(2) Some show ?thesis by fastforce
  qed
  have new: "versions_of d' eid = versions_of d eid @ [v]" using v by (simp add: versions_of_def)
  have latest: "first_desc (versions_of d' eid) = Some v"
    unfolding new by (rule first_desc_last [OF gt])
  show ?thesis
    unfolding latest_matches_def
  proof (intro ballI allI impI)
    fix x w assume x: "x \<in> set (events d')"
      and w: "first_desc (versions_of d' (Event.id x)) = Some w"
    from x evs consider "x = ev" | "x \<in> set (events d)" "Event.id x \<noteq> eid" by auto
    then show "columns w = columns x"
    proof cases
      case 1
      with latest id v w show ?thesis by simp
    next
      case 2
      with v have "versions_of d' (Event.id x) = versions_of d (Event.id x)"
        by (auto simp: versions_of_def)
      with 2 assms(1) w show ?thesis by (simp add: latest_matches_def)
    qed
  qed
qed

lemma serve_op_inv:
  assumes "bounded d \<and> latest_matches d"
  shows "bounded (serve_op d x c1 c2) \<and> latest_matches (serve_op d x c1 c2)"
proof -
  from assms have b: "bounded d" and l: "latest_matches d" by simp_all
  from serve_op_effect [OF refl, of d x c1 c2] show ?thesis
  proof (elim disjE exE)
    assume "serve_op d x c1 c2 = d"
    with assms show ?thesis by simp
  next
    fix ev assume c: "created d (serve_op d x c1 c2) ev"
    from bounded_created [OF b c] latest_matches_created [OF b l c] show ?thesis by simp
  next
    fix eid ev assume m: "modified d (serve_op d x c1 c2) eid ev"
    from bounded_modified [OF b m] latest_matches_modified [OF l m] show ?thesis by simp
  next
    fix ev assume h: "half_created d (serve_op d x c1 c2) ev"
    from bounded_half_created [OF b h] latest_matches_half_created [OF b l h]
    show ?thesis by simp
  qed
qed

lemma serve_inv:
  "bounded d \<and> latest_matches d \<Longrightarrow> bounded (serve d xs) \<and> latest_matches (serve d xs)"
proof (induction xs arbitrary: d)
  case Nil
  then show ?case by simp
next
  case (Cons a xs)
  obtain x c1 c2 where a: "a = (x, c1, c2)" by (cases a)
  from Cons.IH [OF serve_op_inv [OF Cons.prems, of x c1 c2]] a show ?case by simp
qed

lemma init_served: "bounded (init_db us) \<and> latest_matches (init_db us)"
  by (simp add: bounded_def latest_matches_def init_db_def)

lemma scenario_served:
  "serve (init_db [alice, bob])
     [(Create alice standup 10, True, True), (Update alice 1 retitle 20, True, True),
      (Rollback alice 1 1 30, True, True)] = db3"
  by (simp add: db1_created db2_updated db3_rolled_back)

lemma db_half_created:
  "create_event (init_db [alice, bob]) standup alice 10 True False = (db_half, Inl StorageError)"
  by (simp add: create_event_def Let_def db_half_def example_defs)

lemma db_half_served:
  "serve (init_db [alice, bob]) [(Create alice standup 10, True, False)] = db_half"
  by (simp add: db_half_created)

lemma serve_append: "serve d (xs @ ys) = serve (serve d xs) ys"
  by (induction xs arbitrary: d) auto

lemma other_created:
  "create_event db3 other bob 40 True True =
     (db3\<lparr>events := [standup_event\<lparr>Event.updated_at := 30\<rparr>,
                      other_event\<lparr>EventColumns.title := Some ''Other'',
                        Event.updated_at := 40\<rparr>],
           event_versions := [standup_v1, standup_v2, standup_v3, other_v1],
           next_event_id := 3, next_version_id := 5\<rparr>,
      Inr (other_event\<lparr>EventColumns.title := Some ''Other'', Event.updated_at := 40\<rparr>))"
  by (simp add: create_event_def Let_def add_version_def other_def example_defs two_defs)

lemma other_changed:
  "update_event
     (db3\<lparr>events := [standup_event\<lparr>Event.updated_at := 30\<rparr>,
                      other_event\<lparr>EventColumns.title := Some ''Other'',
                        Event.updated_at := 40\<rparr>],
           event_versions := [standup_v1, standup_v2, standup_v3, other_v1],
           next_event_id := 3, next_version_id := 5\<rparr>)
     2 change bob 50 True = (db_two, Inr other_event)"
  by (simp add: update_event_def Let_def add_version_def store_event_def touch_def columns_def
        apply_update_def query_defs change_def example_defs two_defs)

lemma db_two_continued:
  "serve db3 [(Create bob other 40, True, True), (Update bob 2 change 50, True, True)] = db_two"
  by (simp add: other_created other_changed)

lemma db_two_served:
  "serve (init_db [alice, bob])
     [(Create alice standup 10, True, True), (Update alice 1 retitle 20, True, True),
      (Rollback alice 1 1 30, True, True), (Create bob other 40, True, True),
      (Update bob 2 change 50, True, True)] = db_two"
proof -
  have "serve (init_db [alice, bob])
     ([(Create alice standup 10, True, True), (Update alice 1 retitle 20, True, True),
       (Rollback alice 1 1 30, True, True)] @
      [(Create bob other 40, True, True), (Update bob 2 change 50, True, True)]) = db_two"
    unfolding serve_append scenario_served by (rule db_two_continued)
  then show ?thesis by simp
qed

section \<open>The version ledger is numbered without gaps\<close>

text \<open>
  C1. After any sequence of create, update and rollback requests, starting from a store
  without events, the version numbers recorded for an event, in the order of the rows, are
  exactly \<open>1, ..., N\<close>, where \<open>N\<close> is the number of requests of the sequence that
  succeeded on that event: no gap and no duplicate.
\<close>

theorem version_numbers_contiguous:
  "map version_number (versions_of (fst (run (init_db us) ops)) eid) =
     [1..int (count_list (snd (run (init_db us) ops)) eid)]"
  using run_inv [OF init_inv, of us ops] by (simp add: reachable_inv_def numbered_def)

theorem version_numbers_contiguous_witness:
  "run (init_db [alice, bob])
     [Create alice standup 10, Update alice 1 retitle 20, Rollback alice 1 1 30] =
     (db3, [1, 1, 1]) \<and>
   map version_number (versions_of db3 1) = [1, 2, 3]"
  using version_numbers_contiguous [of "[alice, bob]"
      "[Create alice standup 10, Update alice 1 retitle 20, Rollback alice 1 1 30]" 1]
  unfolding scenario_run by (simp add: upto.simps)

section \<open>Resolution of the event and the ownership check\<close>




section \<open>The difference of two versions\<close>

text \<open>
  C7. For the owner of an event \<open>e\<close> and two version numbers \<open>a\<close> and \<open>b\<close>: when the table
  holds a version row of \<open>e\<close> numbered \<open>a\<close> and one numbered \<open>b\<close> (\<open>va\<close> and \<open>vb\<close>, the
  first such rows), the differences reported are those of \<open>diff_spec va vb\<close>: for each of
  the eight tracked fields, in the fixed order title, description, start_time, end_time,
  location, is_recurring, recurrence_pattern, recurrence_end_date, one entry with the field
  name, the value of \<open>va\<close> as old value and the value of \<open>vb\<close> as new value, exactly when
  the two values are unequal. When no version row of \<open>e\<close> has the number \<open>a\<close>, or none has
  the number \<open>b\<close>, the request ends with 404, whatever rows other events have.
\<close>

theorem diff_by_field:
  assumes "query_event d eid = Some ev" "Event.owner_id ev = User.id u"
  shows "(\<forall>va vb.
            find (\<lambda>v. EventVersion.event_id v = Some eid \<and> version_number v = a)
              (event_versions d) = Some va \<and>
            find (\<lambda>v. EventVersion.event_id v = Some eid \<and> version_number v = b)
              (event_versions d) = Some vb \<longrightarrow>
            va \<in> set (event_versions d) \<and> vb \<in> set (event_versions d) \<and>
            EventVersion.event_id va = Some eid \<and> version_number va = a \<and>
            EventVersion.event_id vb = Some eid \<and> version_number vb = b \<and>
            get_event_diff d eid a b u =
              (d, Inr \<lparr>VersionDiff.version1 = a, VersionDiff.version2 = b,
                        VersionDiff.differences = diff_spec va vb\<rparr>)) \<and>
         ((\<forall>v \<in> set (event_versions d).
             EventVersion.event_id v = Some eid \<longrightarrow> version_number v \<noteq> a) \<or>
          (\<forall>v \<in> set (event_versions d).
             EventVersion.event_id v = Some eid \<longrightarrow> version_number v \<noteq> b) \<longrightarrow>
            get_event_diff d eid a b u =
              (d, Inl (HTTPException 404 ''One or both versions not found'')))"
proof (intro conjI allI impI)
  fix va vb
  assume h: "find (\<lambda>v. EventVersion.event_id v = Some eid \<and> version_number v = a)
              (event_versions d) = Some va \<and>
            find (\<lambda>v. EventVersion.event_id v = Some eid \<and> version_number v = b)
              (event_versions d) = Some vb"
  then have qa: "query_version d eid a = Some va" and qb: "query_version d eid b = Some vb"
    by (simp_all add: query_version_table)
  from query_version_row [OF qa] show "va \<in> set (event_versions d)"
    "EventVersion.event_id va = Some eid" "version_number va = a" .
  from query_version_row [OF qb] show "vb \<in> set (event_versions d)"
    "EventVersion.event_id vb = Some eid" "version_number vb = b" .
  from qa qb show "get_event_diff d eid a b u =
              (d, Inr \<lparr>VersionDiff.version1 = a, VersionDiff.version2 = b,
                        VersionDiff.differences = diff_spec va vb\<rparr>)"
    by (simp add: get_event_diff_owner [OF assms] diff_loop_tracked)
next
  assume "(\<forall>v \<in> set (event_versions d).
             EventVersion.event_id v = Some eid \<longrightarrow> version_number v \<noteq> a) \<or>
          (\<forall>v \<in> set (event_versions d).
             EventVersion.event_id v = Some eid \<longrightarrow> version_number v \<noteq> b)"
  then have "query_version d eid a = None \<or> query_version d eid b = None"
    by (simp add: query_version_absent)
  then show "get_event_diff d eid a b u =
              (d, Inl (HTTPException 404 ''One or both versions not found''))"
    by (auto simp: get_event_diff_owner [OF assms] split: option.splits)
qed

theorem diff_by_field_witness:
  "query_event db_two 2 = Some other_event \<and>
   Event.owner_id other_event = User.id bob \<and>
   find (\<lambda>v. EventVersion.event_id v = Some 2 \<and> version_number v = 1)
     (event_versions db_two) = Some other_v1 \<and>
   find (\<lambda>v. EventVersion.event_id v = Some 2 \<and> version_number v = 2)
     (event_versions db_two) = Some other_v2 \<and>
   get_event_diff db_two 2 1 2 bob =
     (db_two, Inr \<lparr>VersionDiff.version1 = 1, VersionDiff.version2 = 2,
                     VersionDiff.differences =
                       [\<lparr>DiffItem.field = ''title'', DiffItem.old_value = PyStr ''Other'',
                         DiffItem.new_value = PyStr ''Changed''\<rparr>]\<rparr>) \<and>
   find (\<lambda>v. EventVersion.event_id v = Some 1 \<and> version_number v = 3)
     (event_versions db_two) = Some standup_v3 \<and>
   find (\<lambda>v. EventVersion.event_id v = Some 2 \<and> version_number v = 3)
     (event_versions db_two) = None \<and>
   get_event_diff db_two 2 1 3 bob =
     (db_two, Inl (HTTPException 404 ''One or both versions not found''))"
proof -
  have q: "query_event db_two 2 = Some other_event"
    by (simp add: query_defs example_defs two_defs)
  have o: "Event.owner_id other_event = User.id bob" by (simp add: example_defs two_defs)
  have v: "find (\<lambda>v. EventVersion.event_id v = Some 2 \<and> version_number v = 1)
       (event_versions db_two) = Some other_v1"
    "find (\<lambda>v. EventVersion.event_id v = Some 2 \<and> version_number v = 2)
       (event_versions db_two) = Some other_v2"
    "find (\<lambda>v. EventVersion.event_id v = Some 1 \<and> version_number v = 3)
       (event_versions db_two) = Some standup_v3"
    "find (\<lambda>v. EventVersion.event_id v = Some 2 \<and> version_number v = 3)
       (event_versions db_two) = None"
    by (simp_all add: example_defs two_defs)
  have absent: "\<forall>v \<in> set (event_versions db_two).
      EventVersion.event_id v = Some 2 \<longrightarrow> version_number v \<noteq> 3"
    by (simp add: example_defs two_defs)
  have s: "diff_spec other_v1 other_v2 =
        [\<lparr>DiffItem.field = ''title'', DiffItem.old_value = PyStr ''Other'',
          DiffItem.new_value = PyStr ''Changed''\<rparr>]"
    by (simp add: diff_spec_def diff_entry_def two_defs)
  from diff_by_field [OF q o, of 1 2] v(1,2) s
  have a: "get_event_diff db_two 2 1 2 bob =
     (db_two, Inr \<lparr>VersionDiff.version1 = 1, VersionDiff.version2 = 2,
                     VersionDiff.differences =
                       [\<lparr>DiffItem.field = ''title'', DiffItem.old_value = PyStr ''Other'',
                         DiffItem.new_value = PyStr ''Changed''\<rparr>]\<rparr>)"
    by simp
  from diff_by_field [OF q o, of 1 3] absent
  have b: "get_event_diff db_two 2 1 3 bob =
     (db_two, Inl (HTTPException 404 ''One or both versions not found''))"
    by blast
  have evaluated: "get_event_diff db_two 2 1 3 bob =
     (db_two, Inl (HTTPException 404 ''One or both versions not found''))"
    "get_event_diff db_two 2 1 2 bob =
     (db_two, Inr \<lparr>VersionDiff.version1 = 1, VersionDiff.version2 = 2,
                     VersionDiff.differences =
                       [\<lparr>DiffItem.field = ''title'', DiffItem.old_value = PyStr ''Other'',
                         DiffItem.new_value = PyStr ''Changed''\<rparr>]\<rparr>)"
    by (simp_all add: get_event_diff_def tracked_fields_def Let_def query_defs example_defs
          two_defs)
  from q o v a b evaluated show ?thesis by simp
qed

text \<open>
  C8. When the difference of versions \<open>a\<close> and \<open>b\<close> is reported, the difference of \<open>b\<close> and
  \<open>a\<close> is reported too, with the same fields in the same order and the old and new value
  of each entry swapped; the difference of a version with itself is empty.
\<close>

theorem diff_swap:
  "(get_event_diff d eid a b u = (d', Inr r) \<longrightarrow>
      get_event_diff d eid b a u =
        (d, Inr \<lparr>VersionDiff.version1 = b, VersionDiff.version2 = a,
                  VersionDiff.differences = map swap_item (VersionDiff.differences r)\<rparr>) \<and>
      map DiffItem.field (map swap_item (VersionDiff.differences r)) =
        map DiffItem.field (VersionDiff.differences r)) \<and>
   (get_event_diff d eid v v u = (d'', Inr r') \<longrightarrow> VersionDiff.differences r' = [])"
proof (intro conjI impI)
  assume h: "get_event_diff d eid a b u = (d', Inr r)"
  from get_event_diff_Inr [OF h] obtain ev va vb where
    q: "query_event d eid = Some ev" "Event.owner_id ev = User.id u"
    and v: "query_version d eid a = Some va" "query_version d eid b = Some vb"
    and r: "r = \<lparr>VersionDiff.version1 = a, VersionDiff.version2 = b,
                 VersionDiff.differences = diff_loop tracked_fields va vb []\<rparr>"
    by blast
  show "get_event_diff d eid b a u =
        (d, Inr \<lparr>VersionDiff.version1 = b, VersionDiff.version2 = a,
                  VersionDiff.differences = map swap_item (VersionDiff.differences r)\<rparr>)"
    using v r diff_loop_swap [of tracked_fields vb va]
    by (simp add: get_event_diff_owner [OF q])
  show "map DiffItem.field (map swap_item (VersionDiff.differences r)) =
        map DiffItem.field (VersionDiff.differences r)"
    by (simp add: swap_item_def comp_def)
next
  assume h: "get_event_diff d eid v v u = (d'', Inr r')"
  from get_event_diff_Inr [OF h] show "VersionDiff.differences r' = []"
    by (auto simp: diff_loop_same)
qed

theorem diff_swap_witness:
  "get_event_diff db3 1 2 1 alice =
     (db3, Inr \<lparr>VersionDiff.version1 = 2, VersionDiff.version2 = 1,
                 VersionDiff.differences =
                   [\<lparr>DiffItem.field = ''title'', DiffItem.old_value = PyStr ''Daily Standup'',
                     DiffItem.new_value = PyStr ''Standup''\<rparr>]\<rparr>) \<and>
   get_event_diff db3 1 1 1 alice =
     (db3, Inr \<lparr>VersionDiff.version1 = 1, VersionDiff.version2 = 1,
                 VersionDiff.differences = []\<rparr>)"
proof -
  have a: "get_event_diff db3 1 1 2 alice =
     (db3, Inr \<lparr>VersionDiff.version1 = 1, VersionDiff.version2 = 2,
                 VersionDiff.differences =
                   [\<lparr>DiffItem.field = ''title'', DiffItem.old_value = PyStr ''Standup'',
                     DiffItem.new_value = PyStr ''Daily Standup''\<rparr>]\<rparr>)"
    by (simp add: get_event_diff_def tracked_fields_def Let_def query_defs example_defs)
  obtain r where b: "get_event_diff db3 1 1 1 alice = (db3, Inr r)"
    "VersionDiff.version1 r = 1" "VersionDiff.version2 r = 1"
    by (simp add: get_event_diff_def query_defs example_defs)
  from diff_swap [where d = db3 and eid = 1 and a = 1 and b = 2 and u = alice and d' = db3
      and v = 1 and d'' = db3 and r' = r, unfolded a] b
  show ?thesis by (simp add: swap_item_def)
qed

section \<open>Partial updates\<close>

text \<open>
  C5. An update by the owner, whose commit is accepted, succeeds; the event it returns is
  the event stored afterwards; each of the eight editable fields has the value the request
  body sets when the body sets the field, and its previous value when the body does not
  mention it; id, owner and creation time are kept. Exactly one version row is appended:
  it belongs to the event, its modifier is the caller, and its eight fields are those of
  the resulting event, the unchanged ones included.
\<close>

theorem update_partial:
  assumes "query_event d eid = Some ev0" "Event.owner_id ev0 = User.id u"
  shows "\<exists>d' ev new.
      update_event d eid upd u now True = (d', Inr ev) \<and>
      query_event d' eid = Some ev \<and>
      EventColumns.title ev =
        (case EventUpdate.title upd of None \<Rightarrow> EventColumns.title ev0 | Some x \<Rightarrow> x) \<and>
      EventColumns.description ev =
        (case EventUpdate.description upd of
           None \<Rightarrow> EventColumns.description ev0 | Some x \<Rightarrow> x) \<and>
      EventColumns.start_time ev =
        (case EventUpdate.start_time upd of
           None \<Rightarrow> EventColumns.start_time ev0 | Some x \<Rightarrow> x) \<and>
      EventColumns.end_time ev =
        (case EventUpdate.end_time upd of None \<Rightarrow> EventColumns.end_time ev0 | Some x \<Rightarrow> x) \<and>
      EventColumns.location ev =
        (case EventUpdate.location upd of None \<Rightarrow> EventColumns.location ev0 | Some x \<Rightarrow> x) \<and>
      EventColumns.is_recurring ev =
        (case EventUpdate.is_recurring upd of
           None \<Rightarrow> EventColumns.is_recurring ev0 | Some x \<Rightarrow> x) \<and>
      EventColumns.recurrence_pattern ev =
        (case EventUpdate.recurrence_pattern upd of
           None \<Rightarrow> EventColumns.recurrence_pattern ev0 | Some x \<Rightarrow> x) \<and>
      EventColumns.recurrence_end_date ev =
        (case EventUpdate.recurrence_end_date upd of
           None \<Rightarrow> EventColumns.recurrence_end_date ev0 | Some x \<Rightarrow> x) \<and>
      Event.id ev = Event.id ev0 \<and> Event.owner_id ev = Event.owner_id ev0 \<and>
      Event.created_at ev = Event.created_at ev0 \<and>
      event_versions d' = event_versions d @ [new] \<and>
      EventVersion.event_id new = Some eid \<and>
      EventVersion.modified_by_id new = User.id u \<and>
      EventColumns.title new = EventColumns.title ev \<and>
      EventColumns.description new = EventColumns.description ev \<and>
      EventColumns.start_time new = EventColumns.start_time ev \<and>
      EventColumns.end_time new = EventColumns.end_time ev \<and>
      EventColumns.location new = EventColumns.location ev \<and>
      EventColumns.is_recurring new = EventColumns.is_recurring ev \<and>
      EventColumns.recurrence_pattern new = EventColumns.recurrence_pattern ev \<and>
      EventColumns.recurrence_end_date new = EventColumns.recurrence_end_date ev"
proof -
  let ?ev = "touch ev0 (apply_update ev0 upd) now"
  from update_event_owner [OF assms, of upd now] obtain new where
    u: "update_event d eid upd u now True = (add_version (store_event d ?ev) new, Inr ?ev)"
    and c: "columns new = columns (apply_update ev0 upd)"
    and e: "EventVersion.event_id new = Some eid" "EventVersion.modified_by_id new = User.id u"
    by blast
  let ?new = "new\<lparr>EventVersion.id := next_version_id d\<rparr>"
  have id: "Event.id ?ev = eid" using query_event_id [OF assms(1)] by simp
  have q: "query_event (add_version (store_event d ?ev) new) eid = Some ?ev"
    by (rule query_event_stored [OF assms(1) id])
  have v: "event_versions (add_version (store_event d ?ev) new) = event_versions d @ [?new]"
    by (simp add: event_versions_add_version)
  have cn: "columns ?new = columns ?ev" using c by simp
  have ap: "EventColumns.title ?ev =
        (case EventUpdate.title upd of None \<Rightarrow> EventColumns.title ev0 | Some x \<Rightarrow> x)"
    "EventColumns.description ?ev =
        (case EventUpdate.description upd of
           None \<Rightarrow> EventColumns.description ev0 | Some x \<Rightarrow> x)"
    "EventColumns.start_time ?ev =
        (case EventUpdate.start_time upd of
           None \<Rightarrow> EventColumns.start_time ev0 | Some x \<Rightarrow> x)"
    "EventColumns.end_time ?ev =
        (case EventUpdate.end_time upd of None \<Rightarrow> EventColumns.end_time ev0 | Some x \<Rightarrow> x)"
    "EventColumns.location ?ev =
        (case EventUpdate.location upd of None \<Rightarrow> EventColumns.location ev0 | Some x \<Rightarrow> x)"
    "EventColumns.is_recurring ?ev =
        (case EventUpdate.is_recurring upd of
           None \<Rightarrow> EventColumns.is_recurring ev0 | Some x \<Rightarrow> x)"
    "EventColumns.recurrence_pattern ?ev =
        (case EventUpdate.recurrence_pattern upd of
           None \<Rightarrow> EventColumns.recurrence_pattern ev0 | Some x \<Rightarrow> x)"
    "EventColumns.recurrence_end_date ?ev =
        (case EventUpdate.recurrence_end_date upd of
           None \<Rightarrow> EventColumns.recurrence_end_date ev0 | Some x \<Rightarrow> x)"
    by (simp_all add: apply_update_def)
  have keep: "Event.id ?ev = Event.id ev0" "Event.owner_id ?ev = Event.owner_id ev0"
    "Event.created_at ?ev = Event.created_at ev0"
    by (simp_all add: apply_update_def)
  have e': "EventVersion.event_id ?new = Some eid" "EventVersion.modified_by_id ?new = User.id u"
    using e by simp_all
  from cn have cols: "EventColumns.title ?new = EventColumns.title ?ev"
      "EventColumns.description ?new = EventColumns.description ?ev"
      "EventColumns.start_time ?new = EventColumns.start_time ?ev"
      "EventColumns.end_time ?new = EventColumns.end_time ?ev"
      "EventColumns.location ?new = EventColumns.location ?ev"
      "EventColumns.is_recurring ?new = EventColumns.is_recurring ?ev"
      "EventColumns.recurrence_pattern ?new = EventColumns.recurrence_pattern ?ev"
      "EventColumns.recurrence_end_date ?new = EventColumns.recurrence_end_date ?ev"
    unfolding columns_eq_iff by blast+
  show ?thesis
    apply (rule exI [of _ "add_version (store_event d ?ev) new"])
    apply (rule exI [of _ ?ev])
    apply (rule exI [of _ ?new])
    apply (intro conjI)
    apply (rule u q ap keep v e' cols)+
    done
qed


theorem update_partial_witness:
  "query_event db1 1 = Some standup_event \<and>
   Event.owner_id standup_event = User.id alice \<and>
   update_event db1 1 retitle alice 20 True =
     (db2, Inr (standup_event\<lparr>EventColumns.title := Some ''Daily Standup'',
                  Event.updated_at := 20\<rparr>)) \<and>
   (\<exists>d' ev new.
      update_event db1 1 retitle alice 20 True = (d', Inr ev) \<and>
      query_event d' 1 = Some ev \<and>
      EventColumns.title ev = Some ''Daily Standup'' \<and>
      EventColumns.start_time ev = Some 900 \<and>
      event_versions d' = event_versions db1 @ [new] \<and>
      EventVersion.modified_by_id new = 1 \<and>
      EventColumns.title new = Some ''Daily Standup'' \<and>
      EventColumns.start_time new = Some 900)"
proof -
  have q: "query_event db1 1 = Some standup_event" by (simp add: query_defs example_defs)
  have o: "Event.owner_id standup_event = User.id alice" by (simp add: example_defs)
  from update_partial [OF q o, of retitle 20] obtain d' ev new where
    h: "update_event db1 1 retitle alice 20 True = (d', Inr ev)"
      "query_event d' 1 = Some ev"
      "EventColumns.title ev =
        (case EventUpdate.title retitle of None \<Rightarrow> EventColumns.title standup_event | Some x \<Rightarrow> x)"
      "EventColumns.start_time ev =
        (case EventUpdate.start_time retitle of
           None \<Rightarrow> EventColumns.start_time standup_event | Some x \<Rightarrow> x)"
      "event_versions d' = event_versions db1 @ [new]"
      "EventVersion.modified_by_id new = User.id alice"
      "EventColumns.title new = EventColumns.title ev"
      "EventColumns.start_time new = EventColumns.start_time ev"
    by blast
  have t: "EventColumns.title ev = Some ''Daily Standup''" "EventColumns.start_time ev = Some 900"
    using h(3,4) by (simp_all add: example_defs)
  have "\<exists>d' ev new.
      update_event db1 1 retitle alice 20 True = (d', Inr ev) \<and>
      query_event d' 1 = Some ev \<and>
      EventColumns.title ev = Some ''Daily Standup'' \<and>
      EventColumns.start_time ev = Some 900 \<and>
      event_versions d' = event_versions db1 @ [new] \<and>
      EventVersion.modified_by_id new = 1 \<and>
      EventColumns.title new = Some ''Daily Standup'' \<and>
      EventColumns.start_time new = Some 900"
    using h t by (intro exI [of _ d'] exI [of _ ev] exI [of _ new]) (simp add: alice_def)
  with q o db2_updated show ?thesis by simp
qed

section \<open>Rollback\<close>

text \<open>
  C2. For an event \<open>e\<close>, its owner and a version number \<open>n\<close> such that the table holds a
  version row of \<open>e\<close> with that number (\<open>target\<close>, the first such row), a rollback whose
  commit is accepted succeeds. \<open>target\<close> is what \<open>get_event_version\<close> returns. The version
  table afterwards is the table before with one row appended, so no existing row is
  modified or removed; the appended row belongs to \<open>e\<close>, is its latest version and is what
  \<open>get_event_version\<close> returns for its number; its eight editable columns, and those of
  the stored event, equal those of \<open>target\<close>; and its version number is strictly greater
  than the number of every version row of \<open>e\<close> before.
\<close>

theorem rollback_round_trip:
  assumes "query_event d eid = Some ev0" "Event.owner_id ev0 = User.id u"
    and "find (\<lambda>v. EventVersion.event_id v = Some eid \<and> version_number v = n)
           (event_versions d) = Some target"
  shows "\<exists>d' ev new.
      rollback_event d eid n u now True = (d', Inr ev) \<and>
      get_event_version d eid n u = (d, Inr target) \<and>
      target \<in> set (event_versions d) \<and>
      EventVersion.event_id target = Some eid \<and>
      version_number target = n \<and>
      event_versions d' = event_versions d @ [new] \<and>
      query_event d' eid = Some ev \<and>
      ev \<in> set (events d') \<and>
      Event.id ev = eid \<and>
      columns ev = columns target \<and>
      query_current_version d' eid = Some new \<and>
      get_event_version d' eid (version_number new) u = (d', Inr new) \<and>
      columns new = columns target \<and>
      EventVersion.event_id new = Some eid \<and>
      EventVersion.modified_by_id new = User.id u \<and>
      (\<forall>w \<in> set (event_versions d).
         EventVersion.event_id w = Some eid \<longrightarrow> version_number w < version_number new)"
proof -
  from assms(3) have t: "query_version d eid n = Some target"
    by (simp add: query_version_table)
  note row = query_version_row [OF t]
  from rollback_event_succeeds [OF assms(1,2) t, of now] obtain d' ev where
    r: "rollback_event d eid n u now True = (d', Inr ev)" by blast
  have g: "get_event_version d eid n u = (d, Inr target)"
    using assms(1,2) t by (simp add: get_event_version_def)
  from rollback_event_written [OF r] g obtain new where
    n: "event_versions d' = event_versions d @ [new]"
    "query_event d' eid = Some ev"
    "columns ev = columns target"
    "query_current_version d' eid = Some new"
    "get_event_version d' eid (version_number new) u = (d', Inr new)"
    "columns new = columns target"
    "EventVersion.event_id new = Some eid"
    "EventVersion.modified_by_id new = User.id u"
    and gt: "\<forall>w \<in> set (versions_of d eid). version_number w < version_number new"
    by auto
  from gt have gt': "\<forall>w \<in> set (event_versions d).
         EventVersion.event_id w = Some eid \<longrightarrow> version_number w < version_number new"
    by (simp add: versions_of_def)
  note stored = query_event_mem [OF n(2)] query_event_id [OF n(2)]
  from r g row n stored gt' show ?thesis
    by (intro exI [of _ d'] exI [of _ ev] exI [of _ new] conjI) assumption+
qed

theorem rollback_round_trip_witness:
  "query_event db_two 2 = Some other_event \<and>
   Event.owner_id other_event = User.id bob \<and>
   find (\<lambda>v. EventVersion.event_id v = Some 2 \<and> version_number v = 1)
     (event_versions db_two) = Some other_v1 \<and>
   rollback_event db_two 2 1 bob 60 True =
     (db_two\<lparr>events := [standup_event\<lparr>Event.updated_at := 30\<rparr>,
                          other_event\<lparr>EventColumns.title := Some ''Other'',
                            Event.updated_at := 60\<rparr>],
              event_versions := [standup_v1, standup_v2, standup_v3, other_v1, other_v2, other_v3],
              next_version_id := 7\<rparr>,
      Inr (other_event\<lparr>EventColumns.title := Some ''Other'', Event.updated_at := 60\<rparr>)) \<and>
   (\<exists>d' ev new.
      rollback_event db_two 2 1 bob 60 True = (d', Inr ev) \<and>
      event_versions d' = event_versions db_two @ [new] \<and>
      query_current_version d' 2 = Some new \<and>
      columns new = columns other_v1 \<and>
      columns ev = columns other_v1 \<and>
      EventColumns.title ev = Some ''Other'' \<and>
      EventVersion.event_id new = Some 2 \<and>
      version_number new = 3)"
proof -
  have q: "query_event db_two 2 = Some other_event"
    by (simp add: query_defs example_defs two_defs)
  have o: "Event.owner_id other_event = User.id bob" by (simp add: example_defs two_defs)
  have t: "find (\<lambda>v. EventVersion.event_id v = Some 2 \<and> version_number v = 1)
     (event_versions db_two) = Some other_v1"
    by (simp add: example_defs two_defs)
  have r: "rollback_event db_two 2 1 bob 60 True =
     (db_two\<lparr>events := [standup_event\<lparr>Event.updated_at := 30\<rparr>,
                          other_event\<lparr>EventColumns.title := Some ''Other'',
                            Event.updated_at := 60\<rparr>],
              event_versions := [standup_v1, standup_v2, standup_v3, other_v1, other_v2, other_v3],
              next_version_id := 7\<rparr>,
      Inr (other_event\<lparr>EventColumns.title := Some ''Other'', Event.updated_at := 60\<rparr>))"
    by (simp add: rollback_event_def Let_def add_version_def store_event_def touch_def
          columns_def query_defs example_defs two_defs)
  from rollback_round_trip [OF q o t, of 60] obtain d' ev new where
    h: "rollback_event db_two 2 1 bob 60 True = (d', Inr ev)"
      "event_versions d' = event_versions db_two @ [new]"
      "query_current_version d' 2 = Some new"
      "columns new = columns other_v1"
      "columns ev = columns other_v1"
      "EventVersion.event_id new = Some 2"
    by blast
  from h(5) have ti: "EventColumns.title ev = Some ''Other''"
    by (simp add: columns_eq_iff other_v1_def)
  from h(1) have "d' = fst (rollback_event db_two 2 1 bob 60 True)" by simp
  then have "d' = db_two\<lparr>events := [standup_event\<lparr>Event.updated_at := 30\<rparr>,
                          other_event\<lparr>EventColumns.title := Some ''Other'',
                            Event.updated_at := 60\<rparr>],
              event_versions := [standup_v1, standup_v2, standup_v3, other_v1, other_v2, other_v3],
              next_version_id := 7\<rparr>" by (simp only: r fst_conv)
  with h(2) have "new = other_v3" by (simp add: db_two_def)
  then have n: "version_number new = 3" by (simp add: other_v3_def)
  from h ti n have "\<exists>d' ev new.
      rollback_event db_two 2 1 bob 60 True = (d', Inr ev) \<and>
      event_versions d' = event_versions db_two @ [new] \<and>
      query_current_version d' 2 = Some new \<and>
      columns new = columns other_v1 \<and>
      columns ev = columns other_v1 \<and>
      EventColumns.title ev = Some ''Other'' \<and>
      EventVersion.event_id new = Some 2 \<and>
      version_number new = 3"
    by (intro exI [of _ d'] exI [of _ ev] exI [of _ new] conjI) assumption+
  with q o t r show ?thesis by simp
qed

section \<open>An update that sets no field\<close>

text \<open>
  C10, as the code has it. In a store reached from the initial one by create, update and
  rollback requests, whatever the outcome of their commits, an update by the owner whose
  body sets no field succeeds and returns the event unchanged, and the stored event is
  unchanged; one version row is appended for the event, with the eight columns of the
  event. When the event has version rows already, the new row is numbered one greater than
  the greatest of them, and its columns equal those of that latest version. When the event
  has none, because the second commit of its creation was refused, the new row is
  numbered 1.
\<close>

theorem empty_update_appends:
  assumes "d = serve (init_db us) requests"
    and "query_event d eid = Some ev0" "Event.owner_id ev0 = User.id u"
  shows "\<exists>d' new.
      update_event d eid no_fields u now True = (d', Inr ev0) \<and>
      query_event d' eid = Some ev0 \<and>
      event_versions d' = event_versions d @ [new] \<and>
      EventVersion.event_id new = Some eid \<and>
      columns new = columns ev0 \<and>
      ((\<forall>w \<in> set (event_versions d). EventVersion.event_id w \<noteq> Some eid) \<longrightarrow>
         version_number new = 1) \<and>
      ((\<exists>w \<in> set (event_versions d). EventVersion.event_id w = Some eid) \<longrightarrow>
         (\<exists>prev \<in> set (event_versions d).
            EventVersion.event_id prev = Some eid \<and>
            (\<forall>w \<in> set (event_versions d).
               EventVersion.event_id w = Some eid \<longrightarrow> version_number w \<le> version_number prev) \<and>
            version_number new = version_number prev + 1 \<and>
            columns new = columns prev))"
proof -
  from serve_inv [OF init_served, of us requests] assms(1) have lm: "latest_matches d" by simp
  from update_event_owner [OF assms(2,3), of no_fields now] obtain new where
    u: "update_event d eid no_fields u now True = (add_version (store_event d ev0) new, Inr ev0)"
    and n: "columns new = columns ev0" "EventVersion.event_id new = Some eid"
      "version_number new =
         (case query_current_version d eid of Some cv \<Rightarrow> version_number cv + 1 | None \<Rightarrow> 1)"
    by auto
  let ?d = "add_version (store_event d ev0) new"
  let ?new = "new\<lparr>EventVersion.id := next_version_id d\<rparr>"
  have q: "query_event ?d eid = Some ev0"
    by (rule query_event_stored [OF assms(2) query_event_id [OF assms(2)]])
  have vs: "event_versions ?d = event_versions d @ [?new]"
    by (simp add: event_versions_add_version)
  have e: "EventVersion.event_id ?new = Some eid" "columns ?new = columns ev0"
    using n by simp_all
  have none: "version_number ?new = 1"
    if "\<forall>w \<in> set (event_versions d). EventVersion.event_id w \<noteq> Some eid"
    using that n(3) by (simp add: query_current_version_None [symmetric])
  have some: "\<exists>prev \<in> set (event_versions d).
            EventVersion.event_id prev = Some eid \<and>
            (\<forall>w \<in> set (event_versions d).
               EventVersion.event_id w = Some eid \<longrightarrow> version_number w \<le> version_number prev) \<and>
            version_number ?new = version_number prev + 1 \<and>
            columns ?new = columns prev"
    if "\<exists>w \<in> set (event_versions d). EventVersion.event_id w = Some eid"
  proof -
    from that have "query_current_version d eid \<noteq> None"
      by (simp add: query_current_version_None)
    then obtain prev where p: "query_current_version d eid = Some prev" by auto
    note row = query_current_version_row [OF p]
    from lm query_event_mem [OF assms(2)] query_event_id [OF assms(2)] p
    have "columns prev = columns ev0"
      by (auto simp: latest_matches_def query_current_version_def)
    with n p have "version_number ?new = version_number prev + 1" "columns ?new = columns prev"
      by simp_all
    with row show ?thesis by blast
  qed
  from u q vs e none some show ?thesis
    by (intro exI [of _ ?d] exI [of _ ?new] conjI impI) (assumption | simp)+
qed

theorem empty_update_appends_witness:
  "db_two = serve (init_db [alice, bob])
     [(Create alice standup 10, True, True), (Update alice 1 retitle 20, True, True),
      (Rollback alice 1 1 30, True, True), (Create bob other 40, True, True),
      (Update bob 2 change 50, True, True)] \<and>
   query_event db_two 2 = Some other_event \<and>
   Event.owner_id other_event = User.id bob \<and>
   update_event db_two 2 no_fields bob 70 True =
     (db_two\<lparr>event_versions :=
               [standup_v1, standup_v2, standup_v3, other_v1, other_v2,
                other_v2\<lparr>EventVersion.id := 6, version_number := 3,
                  EventVersion.created_at := 70\<rparr>],
             next_version_id := 7\<rparr>,
      Inr other_event) \<and>
   (\<exists>d' new.
      update_event db_two 2 no_fields bob 70 True = (d', Inr other_event) \<and>
      event_versions d' = event_versions db_two @ [new] \<and>
      EventVersion.event_id new = Some 2 \<and>
      version_number new = 3 \<and>
      columns new = columns other_v2 \<and>
      EventColumns.title new = Some ''Changed'') \<and>
   db_half = serve (init_db [alice, bob]) [(Create alice standup 10, True, False)] \<and>
   query_event db_half 1 = Some standup_event \<and>
   event_versions db_half = [] \<and>
   (\<exists>d' new.
      update_event db_half 1 no_fields alice 40 True = (d', Inr standup_event) \<and>
      event_versions d' = [new] \<and>
      EventVersion.event_id new = Some 1 \<and>
      version_number new = 1 \<and>
      columns new = columns standup_event)"
proof -
  have r: "db_two = serve (init_db [alice, bob])
     [(Create alice standup 10, True, True), (Update alice 1 retitle 20, True, True),
      (Rollback alice 1 1 30, True, True), (Create bob other 40, True, True),
      (Update bob 2 change 50, True, True)]"
    unfolding db_two_served by simp
  have q: "query_event db_two 2 = Some other_event"
    by (simp add: query_defs example_defs two_defs)
  have o: "Event.owner_id other_event = User.id bob" by (simp add: example_defs two_defs)
  have evaluated: "update_event db_two 2 no_fields bob 70 True =
     (db_two\<lparr>event_versions :=
               [standup_v1, standup_v2, standup_v3, other_v1, other_v2,
                other_v2\<lparr>EventVersion.id := 6, version_number := 3,
                  EventVersion.created_at := 70\<rparr>],
             next_version_id := 7\<rparr>,
      Inr other_event)"
    by (simp add: update_event_def Let_def add_version_def store_event_def touch_def
          columns_def apply_update_def query_defs example_defs two_defs)
  have ex: "\<exists>w \<in> set (event_versions db_two). EventVersion.event_id w = Some 2"
    by (simp add: db_two_def other_v1_def)
  from empty_update_appends [OF r q o, of 70] ex obtain d' new prev where
    h: "update_event db_two 2 no_fields bob 70 True = (d', Inr other_event)"
      "event_versions d' = event_versions db_two @ [new]"
      "EventVersion.event_id new = Some 2"
      "columns new = columns other_event"
    and p: "prev \<in> set (event_versions db_two)" "EventVersion.event_id prev = Some 2"
      "\<forall>w \<in> set (event_versions db_two).
         EventVersion.event_id w = Some 2 \<longrightarrow> version_number w \<le> version_number prev"
      "version_number new = version_number prev + 1"
    by blast
  have ids: "EventVersion.event_id standup_v1 = Some 1" "EventVersion.event_id standup_v2 = Some 1"
    "EventVersion.event_id standup_v3 = Some 1"
    by (simp_all add: standup_v1_def standup_v2_def standup_v3_def)
  have nums: "version_number other_v1 = 1" "version_number other_v2 = 2"
    "EventVersion.event_id other_v2 = Some 2"
    by (simp_all add: other_v1_def other_v2_def)
  from p(1) have "prev = standup_v1 \<or> prev = standup_v2 \<or> prev = standup_v3 \<or>
      prev = other_v1 \<or> prev = other_v2"
    by (simp add: db_two_def)
  with p(2) ids have pv: "prev = other_v1 \<or> prev = other_v2" by auto
  from p(3) nums(3) have "version_number other_v2 \<le> version_number prev"
    by (simp add: db_two_def)
  with pv nums have "version_number prev = 2" by auto
  with p(4) have n: "version_number new = 3" by simp
  from h(4) have c: "columns new = columns other_v2" "EventColumns.title new = Some ''Changed''"
    by (simp_all add: columns_eq_iff two_defs)
  from h n c have a: "\<exists>d' new.
      update_event db_two 2 no_fields bob 70 True = (d', Inr other_event) \<and>
      event_versions d' = event_versions db_two @ [new] \<and>
      EventVersion.event_id new = Some 2 \<and>
      version_number new = 3 \<and>
      columns new = columns other_v2 \<and>
      EventColumns.title new = Some ''Changed''"
    by (intro exI [of _ d'] exI [of _ new] conjI) assumption+
  have r2: "db_half = serve (init_db [alice, bob]) [(Create alice standup 10, True, False)]"
    unfolding db_half_served by simp
  have q2: "query_event db_half 1 = Some standup_event"
    by (simp add: query_defs db_half_def example_defs)
  have o2: "Event.owner_id standup_event = User.id alice" by (simp add: example_defs)
  have e2: "event_versions db_half = []" by (simp add: db_half_def)
  then have no: "\<forall>w \<in> set (event_versions db_half). EventVersion.event_id w \<noteq> Some 1"
    by simp
  from empty_update_appends [OF r2 q2 o2, of 40] no obtain d2 new2 where
    h2: "update_event db_half 1 no_fields alice 40 True = (d2, Inr standup_event)"
      "event_versions d2 = event_versions db_half @ [new2]"
      "EventVersion.event_id new2 = Some 1"
      "columns new2 = columns standup_event"
      "version_number new2 = 1"
    by blast
  from h2 e2 have b: "\<exists>d' new.
      update_event db_half 1 no_fields alice 40 True = (d', Inr standup_event) \<and>
      event_versions d' = [new] \<and>
      EventVersion.event_id new = Some 1 \<and>
      version_number new = 1 \<and>
      columns new = columns standup_event"
    by (intro exI [of _ d2] exI [of _ new2]) simp
  from r q o evaluated a r2 q2 e2 b show ?thesis by (intro conjI) assumption+
qed

text \<open>
  C10 as stated fails for an event whose creation lost its snapshot: there is no previous
  version, and the update that sets no field writes version 1.
\<close>

theorem empty_update_no_previous_counterexample:
  "create_event (init_db [alice, bob]) standup alice 10 True False =
     (db_half, Inl StorageError) \<and>
   query_event db_half 1 = Some standup_event \<and>
   Event.owner_id standup_event = User.id alice \<and>
   event_versions db_half = [] \<and>
   query_current_version db_half 1 = None \<and>
   snd (update_event db_half 1 no_fields alice 40 True) = Inr standup_event \<and>
   map version_number (event_versions (fst (update_event db_half 1 no_fields alice 40 True))) =
     [1]"
proof (intro conjI)
  show "create_event (init_db [alice, bob]) standup alice 10 True False =
     (db_half, Inl StorageError)"
    by (rule db_half_created)
  show "query_event db_half 1 = Some standup_event"
    by (simp add: query_defs db_half_def example_defs)
  show "Event.owner_id standup_event = User.id alice" by (simp add: example_defs)
  show "event_versions db_half = []" by (simp add: db_half_def)
  show "query_current_version db_half 1 = None" by (simp add: query_defs db_half_def)
  show "snd (update_event db_half 1 no_fields alice 40 True) = Inr standup_event"
    by (simp add: update_event_def Let_def touch_def apply_update_def columns_def query_defs
          db_half_def example_defs)
  show "map version_number
          (event_versions (fst (update_event db_half 1 no_fields alice 40 True))) = [1]"
    by (simp add: update_event_def Let_def add_version_def store_event_def touch_def
          apply_update_def columns_def query_defs db_half_def example_defs)
qed

section \<open>Creation and its two commits\<close>

text \<open>
  C3, as the code has it. A creation commits the event row first and the version-1 snapshot
  with a second commit. When the first commit is refused nothing is persisted. When both
  are accepted the store holds the new event, owned by the caller, with the fields of the
  request, and one new version row for it, numbered 1, with the same eight columns and the
  caller as modifier. When the second commit is refused the request ends with a storage
  error and the event stays persisted, without a snapshot.
\<close>

theorem create_two_commits:
  "create_event d event u now False c2 = (d, Inl StorageError) \<and>
   (\<exists>ev v d'.
      Event.id ev = next_event_id d \<and> Event.owner_id ev = User.id u \<and>
      EventColumns.title ev = Some (EventCreate.title event) \<and>
      EventColumns.description ev = Some (EventCreate.description event) \<and>
      EventColumns.start_time ev = Some (EventCreate.start_time event) \<and>
      EventColumns.end_time ev = Some (EventCreate.end_time event) \<and>
      EventColumns.location ev = EventCreate.location event \<and>
      EventColumns.is_recurring ev = Some (EventCreate.is_recurring event) \<and>
      EventColumns.recurrence_pattern ev = EventCreate.recurrence_pattern event \<and>
      EventColumns.recurrence_end_date ev = EventCreate.recurrence_end_date event \<and>
      create_event d event u now True False =
        (d\<lparr>events := events d @ [ev], next_event_id := next_event_id d + 1\<rparr>,
         Inl StorageError) \<and>
      create_event d event u now True True = (d', Inr ev) \<and>
      events d' = events d @ [ev] \<and>
      event_versions d' = event_versions d @ [v] \<and>
      users d' = users d \<and> event_permissions d' = event_permissions d \<and>
      EventVersion.event_id v = Some (Event.id ev) \<and>
      version_number v = 1 \<and>
      EventVersion.modified_by_id v = User.id u \<and>
      columns v = columns ev)"
proof -
  let ?ev = "\<lparr>EventColumns.title = Some (EventCreate.title event),
             EventColumns.description = Some (EventCreate.description event),
             EventColumns.start_time = Some (EventCreate.start_time event),
             EventColumns.end_time = Some (EventCreate.end_time event),
             EventColumns.location = EventCreate.location event,
             EventColumns.is_recurring = Some (EventCreate.is_recurring event),
             EventColumns.recurrence_pattern = EventCreate.recurrence_pattern event,
             EventColumns.recurrence_end_date = EventCreate.recurrence_end_date event,
             Event.id = next_event_id d,
             Event.owner_id = User.id u,
             Event.created_at = now,
             Event.updated_at = now\<rparr>"
  let ?v = "\<lparr>EventColumns.title = Some (EventCreate.title event),
                  EventColumns.description = Some (EventCreate.description event),
                  EventColumns.start_time = Some (EventCreate.start_time event),
                  EventColumns.end_time = Some (EventCreate.end_time event),
                  EventColumns.location = EventCreate.location event,
                  EventColumns.is_recurring = Some (EventCreate.is_recurring event),
                  EventColumns.recurrence_pattern = EventCreate.recurrence_pattern event,
                  EventColumns.recurrence_end_date = EventCreate.recurrence_end_date event,
                  EventVersion.id = next_version_id d,
                  EventVersion.event_id = Some (next_event_id d),
                  EventVersion.modified_by_id = User.id u,
                  EventVersion.version_number = 1,
                  EventVersion.created_at = now\<rparr>"
  let ?d1 = "d\<lparr>events := events d @ [?ev], next_event_id := next_event_id d + 1\<rparr>"
  let ?d2 = "?d1\<lparr>event_versions := event_versions d @ [?v],
               next_version_id := next_version_id d + 1\<rparr>"
  have a: "create_event d event u now False c2 = (d, Inl StorageError)"
    by (simp add: create_event_def Let_def)
  have b: "create_event d event u now True False = (?d1, Inl StorageError)"
    by (simp add: create_event_def Let_def)
  have c: "create_event d event u now True True = (?d2, Inr ?ev)"
    by (simp add: create_event_def Let_def add_version_def)
  have "\<exists>ev v d'.
      Event.id ev = next_event_id d \<and> Event.owner_id ev = User.id u \<and>
      EventColumns.title ev = Some (EventCreate.title event) \<and>
      EventColumns.description ev = Some (EventCreate.description event) \<and>
      EventColumns.start_time ev = Some (EventCreate.start_time event) \<and>
      EventColumns.end_time ev = Some (EventCreate.end_time event) \<and>
      EventColumns.location ev = EventCreate.location event \<and>
      EventColumns.is_recurring ev = Some (EventCreate.is_recurring event) \<and>
      EventColumns.recurrence_pattern ev = EventCreate.recurrence_pattern event \<and>
      EventColumns.recurrence_end_date ev = EventCreate.recurrence_end_date event \<and>
      create_event d event u now True False =
        (d\<lparr>events := events d @ [ev], next_event_id := next_event_id d + 1\<rparr>,
         Inl StorageError) \<and>
      create_event d event u now True True = (d', Inr ev) \<and>
      events d' = events d @ [ev] \<and>
      event_versions d' = event_versions d @ [v] \<and>
      users d' = users d \<and> event_permissions d' = event_permissions d \<and>
      EventVersion.event_id v = Some (Event.id ev) \<and>
      version_number v = 1 \<and>
      EventVersion.modified_by_id v = User.id u \<and>
      columns v = columns ev"
    by (intro exI [of _ ?ev] exI [of _ ?v] exI [of _ ?d2]) (simp add: b c columns_def)
  with a show ?thesis by simp
qed

theorem create_two_commits_witness:
  "create_event (init_db [alice, bob]) standup alice 10 False True =
     (init_db [alice, bob], Inl StorageError) \<and>
   create_event (init_db [alice, bob]) standup alice 10 True True = (db1, Inr standup_event)"
  using create_two_commits [of "init_db [alice, bob]" standup alice 10 True] db1_created
  by simp

text \<open>
  C3 as stated fails: when the commit of the snapshot is refused, the event is persisted
  and has no version.
\<close>

theorem create_not_atomic_counterexample:
  "snd (create_event (init_db [alice, bob]) standup alice 10 True False) = Inl StorageError \<and>
   query_event (fst (create_event (init_db [alice, bob]) standup alice 10 True False)) 1 =
     Some standup_event \<and>
   versions_of (fst (create_event (init_db [alice, bob]) standup alice 10 True False)) 1 = []"
  by (simp add: create_event_def Let_def query_defs example_defs)

section \<open>Sharing\<close>



text \<open>
  C9. The owner shares an event twice, with batches of existing users that both mention the
  user \<open>uid\<close>, and both commits are accepted. Both requests succeed; the second one
  inserts no row for the pair (the number of its grants is what the first request left);
  every grant of the pair carries the role the second request gave last; and when the pair
  had at most one grant before the first request, it has exactly one after the second.
\<close>

theorem regrant_replaces:
  assumes "query_event d eid = Some ev" "Event.owner_id ev = User.id u"
    and "\<forall>p \<in> set (ps1 @ ps2). query_user d (PermissionCreate.user_id p) \<noteq> None"
    and "last_role ps1 uid = Some role1" "last_role ps2 uid = Some role2"
  shows "\<exists>d1 r1 d2 r2.
      share_event d eid ps1 u now1 True = (d1, Inr r1) \<and>
      share_event d1 eid ps2 u now2 True = (d2, Inr r2) \<and>
      length (grants d2 eid uid) = length (grants d1 eid uid) \<and>
      (\<forall>g \<in> set (grants d2 eid uid). PermissionRow.role g = role2) \<and>
      (length (grants d eid uid) \<le> 1 \<longrightarrow>
         (\<exists>g. grants d2 eid uid = [g] \<and> PermissionRow.role g = role2))"
proof -
  from assms(3) have u1: "\<forall>p \<in> set ps1. query_user d (PermissionCreate.user_id p) \<noteq> None"
    and u2: "\<forall>p \<in> set ps2. query_user d (PermissionCreate.user_id p) \<noteq> None" by simp_all
  from share_event_succeeds [OF assms(1,2) u1, of now1] obtain d1 r1 where
    s1: "share_event d eid ps1 u now1 True = (d1, Inr r1)"
    and q1: "query_event d1 eid = Some ev" and us: "users d1 = users d" by blast
  from u2 us have u2': "\<forall>p \<in> set ps2. query_user d1 (PermissionCreate.user_id p) \<noteq> None"
    by (simp add: query_user_def)
  from share_event_succeeds [OF q1 assms(2) u2', of now2] obtain d2 r2 where
    s2: "share_event d1 eid ps2 u now2 True = (d2, Inr r2)" by blast
  from regrant_written [OF s1 s2 assms(4,5)] s1 s2 show ?thesis
    by (intro exI [of _ d1] exI [of _ r1] exI [of _ d2] exI [of _ r2]) simp
qed

theorem regrant_replaces_witness:
  "query_event db1 1 = Some standup_event \<and>
   Event.owner_id standup_event = User.id alice \<and>
   query_user db1 2 = Some bob \<and>
   share_event db1 1 [\<lparr>PermissionCreate.user_id = 2, PermissionCreate.role = VIEWER\<rparr>]
     alice 20 True =
     (db1\<lparr>event_permissions :=
            [\<lparr>PermissionRow.event_id = 1, user_id = 2, role = VIEWER, created_at = 20\<rparr>]\<rparr>,
      Inr \<lparr>ShareResponse.message = ''Event shared successfully'',
            permissions = [\<lparr>Permission.user_id = 2, role = VIEWER, created_at = 20\<rparr>]\<rparr>) \<and>
   share_event
     (db1\<lparr>event_permissions :=
            [\<lparr>PermissionRow.event_id = 1, user_id = 2, role = VIEWER, created_at = 20\<rparr>]\<rparr>)
     1 [\<lparr>PermissionCreate.user_id = 2, PermissionCreate.role = EDITOR\<rparr>] alice 30 True =
     (db1\<lparr>event_permissions :=
            [\<lparr>PermissionRow.event_id = 1, user_id = 2, role = EDITOR, created_at = 20\<rparr>]\<rparr>,
      Inr \<lparr>ShareResponse.message = ''Event shared successfully'',
            permissions = [\<lparr>Permission.user_id = 2, role = EDITOR, created_at = 20\<rparr>]\<rparr>) \<and>
   length (grants db1 1 2) \<le> 1 \<and>
   (\<exists>g. grants
          (db1\<lparr>event_permissions :=
             [\<lparr>PermissionRow.event_id = 1, user_id = 2, role = EDITOR, created_at = 20\<rparr>]\<rparr>)
          1 2 = [g] \<and> PermissionRow.role g = EDITOR)"
proof -
  let ?p1 = "\<lparr>PermissionCreate.user_id = 2, PermissionCreate.role = VIEWER\<rparr>"
  let ?p2 = "\<lparr>PermissionCreate.user_id = 2, PermissionCreate.role = EDITOR\<rparr>"
  let ?d1 = "db1\<lparr>event_permissions :=
            [\<lparr>PermissionRow.event_id = 1, user_id = 2, role = VIEWER, created_at = 20\<rparr>]\<rparr>"
  let ?d2 = "db1\<lparr>event_permissions :=
            [\<lparr>PermissionRow.event_id = 1, user_id = 2, role = EDITOR, created_at = 20\<rparr>]\<rparr>"
  have q: "query_event db1 1 = Some standup_event" by (simp add: query_defs example_defs)
  have o: "Event.owner_id standup_event = User.id alice" by (simp add: example_defs)
  have b: "query_user db1 2 = Some bob" by (simp add: query_defs example_defs)
  then have us: "\<forall>p \<in> set ([?p1] @ [?p2]). query_user db1 (PermissionCreate.user_id p) \<noteq> None"
    by simp
  have s1: "share_event db1 1 [?p1] alice 20 True =
     (?d1, Inr \<lparr>ShareResponse.message = ''Event shared successfully'',
            permissions = [\<lparr>Permission.user_id = 2, role = VIEWER, created_at = 20\<rparr>]\<rparr>)"
    by (simp add: share_event_def permission_dict_def query_defs example_defs)
  have s2: "share_event ?d1 1 [?p2] alice 30 True =
     (?d2, Inr \<lparr>ShareResponse.message = ''Event shared successfully'',
            permissions = [\<lparr>Permission.user_id = 2, role = EDITOR, created_at = 20\<rparr>]\<rparr>)"
    by (simp add: share_event_def permission_dict_def query_defs example_defs)
  have c: "length (grants db1 1 2) \<le> 1" by (simp add: grants_def example_defs)
  have l: "last_role [?p1] 2 = Some VIEWER" "last_role [?p2] 2 = Some EDITOR" by simp_all
  from regrant_replaces [OF q o us l, of 20 30] s1 s2 c
  have "\<exists>g. grants ?d2 1 2 = [g] \<and> PermissionRow.role g = EDITOR" by auto
  with q o b s1 s2 c show ?thesis by simp
qed

end
